theory Spec2Isabelle
  imports Main "HOL-Library.Sublist"
begin

section \<open>Python values, exceptions and workflow states\<close>

text \<open>
  The workflow state of \<^verbatim>\<open>karigar/schemas/state.py\<close> is a dictionary from field names
  to dynamically typed values. Values are modelled by \<open>pyval\<close>; \<open>PObj\<close> is an object
  seen through its data attributes (a chat message object, a database row). Numbers
  are integers: the floating point payloads of the agents never decide control flow
  and are produced by the collaborators taken as parameters below.
\<close>

datatype pyval =
    PNone
  | PBool bool
  | PInt int
  | PStr string
  | PList "pyval list"
  | PDict "(string \<times> pyval) list"
  | PObj "(string \<times> pyval) list"

text \<open>An instance of a subclass of Python's \<^verbatim>\<open>Exception\<close>: its class name and \<^verbatim>\<open>str(e)\<close>.\<close>

datatype exn = Exception (exc_type: string) (exc_str: string)

type_synonym state = "string \<rightharpoonup> pyval"

text \<open>A stage receives the state and returns a partial update, or raises.\<close>

type_synonym stage = "state \<Rightarrow> exn + state"

text \<open>\<^verbatim>\<open>state.get(k)\<close>: a missing key reads as \<^verbatim>\<open>None\<close>.\<close>

definition state_get :: "state \<Rightarrow> string \<Rightarrow> pyval" where
  "state_get s k = (case s k of None \<Rightarrow> PNone | Some v \<Rightarrow> v)"

text \<open>Python truthiness (\<^verbatim>\<open>bool(v)\<close>); plain objects are truthy.\<close>

fun truthy :: "pyval \<Rightarrow> bool" where
  "truthy PNone = False"
| "truthy (PBool b) = b"
| "truthy (PInt i) = (i \<noteq> 0)"
| "truthy (PStr s) = (s \<noteq> [])"
| "truthy (PList xs) = (xs \<noteq> [])"
| "truthy (PDict d) = (d \<noteq> [])"
| "truthy (PObj a) = True"

section \<open>The transition policy\<close>

text \<open>
  \<^verbatim>\<open>should_continue\<close> of \<^verbatim>\<open>KarigarWorkflow._build_graph\<close> (workflow.py, lines 46-71),
  with its chain of comparisons in the source's order.
\<close>

definition should_continue :: "state \<Rightarrow> string" where
  "should_continue s =
    (if state_get s ''status'' = PStr ''error'' then ''end''
     else if state_get s ''status'' = PStr ''intake_complete'' then ''supplier''
     else if state_get s ''status'' = PStr ''supplier_search_complete'' then ''commit''
     else if state_get s ''status'' = PStr ''commit_complete'' then ''sales''
     else if state_get s ''status'' \<in> set [PStr ''sales_complete'', PStr ''sales_skipped'']
       then ''cash''
     else if state_get s ''status'' = PStr ''cash_complete'' then ''end''
     else ''end'')"

text \<open>
  The canonical status table as the specification prints it (section 4.2), kept apart
  from the code above: a status that is not a key of the table, and a status that is
  not a string at all, go to \<open>''end''\<close>.
\<close>

definition canonical_table :: "(string \<times> string) list" where
  "canonical_table =
    [(''error'', ''end''),
     (''intake_complete'', ''supplier''),
     (''supplier_search_complete'', ''commit''),
     (''commit_complete'', ''sales''),
     (''sales_complete'', ''cash''),
     (''sales_skipped'', ''cash''),
     (''cash_complete'', ''end'')]"

definition table_next :: "pyval \<Rightarrow> string" where
  "table_next status =
    (case status of
       PStr st \<Rightarrow> (case map_of canonical_table st of Some n \<Rightarrow> n | None \<Rightarrow> ''end'')
     | _ \<Rightarrow> ''end'')"

section \<open>Merging a partial update into the state\<close>

text \<open>
  \<^verbatim>\<open>KarigarState\<close> (state.py, lines 5-13) declares eight keys. The graph is built as
  \<^verbatim>\<open>StateGraph(KarigarState)\<close>, so the state has one channel per declared key: a key of
  an update (or of the initial state) that is not declared has no channel and is not
  stored. \<^verbatim>\<open>messages\<close> is annotated with the reducer \<^verbatim>\<open>add_messages\<close>: an update of it
  is combined with the stored value by the reducer; every other key keeps the last
  value written.
\<close>

definition KarigarState_keys :: "string list" where
  "KarigarState_keys =
    [''messages'', ''artisan_id'', ''material_request'', ''supplier_quotes'',
     ''selected_quote'', ''order_details'', ''store_url'', ''status'']"

text \<open>
  The reducer is library code (\<^verbatim>\<open>langgraph.graph.message.add_messages\<close>); it is a
  parameter of the model: given the stored and the new value it returns the combined
  value or raises (it rejects values it cannot read as messages).
\<close>

type_synonym reducer = "pyval \<Rightarrow> pyval \<Rightarrow> exn + pyval"

definition write_channel :: "state \<Rightarrow> string \<Rightarrow> state \<Rightarrow> state" where
  "write_channel u k s = (case u k of None \<Rightarrow> s | Some v \<Rightarrow> s(k \<mapsto> v))"

definition merge :: "reducer \<Rightarrow> state \<Rightarrow> state \<Rightarrow> exn + state" where
  "merge add_messages s u =
    (let written = fold (write_channel u) (remove1 ''messages'' KarigarState_keys) s
     in case u ''messages'' of
          None \<Rightarrow> Inr written
        | Some new \<Rightarrow>
            (case add_messages (case s ''messages'' of None \<Rightarrow> PList [] | Some old \<Rightarrow> old) new of
               Inl e \<Rightarrow> Inl e
             | Inr combined \<Rightarrow> Inr (written(''messages'' \<mapsto> combined))))"

text \<open>
  Before the input is written the channel of \<^verbatim>\<open>messages\<close> holds the empty list (the
  reducer channel starts from \<^verbatim>\<open>list()\<close>); every other channel is empty.
\<close>

definition empty_channels :: state where
  "empty_channels = [''messages'' \<mapsto> PList []]"

section \<open>The graph and its execution\<close>

text \<open>
  The graph built by \<^verbatim>\<open>_build_graph\<close>: named nodes, plain edges, and conditional edges,
  each with the path map that translates the policy's answer into a node name.
\<close>

record graph =
  nodes :: "(string \<times> stage) list"
  edges :: "(string \<times> string) list"
  conditional_edges :: "(string \<times> (string \<times> string) list) list"

definition START :: string where "START = ''__start__''"
definition END :: string where "END = ''__end__''"

text \<open>
  \<^verbatim>\<open>run_async_node\<close> (lines 26-29) runs a coroutine stage to completion and hands back
  its result: in a sequential model the wrapper is the stage itself.
\<close>

definition run_async_node :: "stage \<Rightarrow> stage" where
  "run_async_node node_func = (\<lambda>state. node_func state)"

definition build_graph :: "stage \<Rightarrow> stage \<Rightarrow> stage \<Rightarrow> stage \<Rightarrow> stage \<Rightarrow> graph" where
  "build_graph intake_process supplier_process commit_process sales_process cash_process =
    \<lparr> nodes =
        [(''intake'', intake_process),
         (''supplier'', run_async_node supplier_process),
         (''commit'', commit_process),
         (''sales'', sales_process),
         (''cash'', cash_process)],
      edges = [(START, ''intake'')],
      conditional_edges =
        [(''intake'', [(''supplier'', ''supplier''), (''end'', END)]),
         (''supplier'', [(''commit'', ''commit''), (''end'', END)]),
         (''commit'', [(''sales'', ''sales''), (''end'', END)]),
         (''sales'', [(''cash'', ''cash''), (''end'', END)]),
         (''cash'', [(''end'', END)])] \<rparr>"

text \<open>
  The node that follows \<open>node\<close> once its update is merged: the target of its plain
  edge, or the path map's entry for the policy's answer on the merged state. An answer
  that the path map lacks is a \<^verbatim>\<open>KeyError\<close>; a node without outgoing edge ends the run.
\<close>

definition next_node :: "graph \<Rightarrow> string \<Rightarrow> state \<Rightarrow> exn + string" where
  "next_node g node s =
    (case map_of (edges g) node of
       Some target \<Rightarrow> Inr target
     | None \<Rightarrow>
        (case map_of (conditional_edges g) node of
           None \<Rightarrow> Inr END
         | Some path_map \<Rightarrow>
            (case map_of path_map (should_continue s) of
               Some target \<Rightarrow> Inr target
             | None \<Rightarrow> Inl (Exception ''KeyError'' (should_continue s)))))"

text \<open>
  Execution of the compiled graph from a node. The trace records every stage
  invocation, in order, with the state the stage was given. The library bounds the
  number of steps of a run by its recursion limit and raises
  \<^verbatim>\<open>GraphRecursionError\<close> beyond it; the bound is the first argument.
\<close>

type_synonym trace = "(string \<times> state) list"

fun run_node :: "nat \<Rightarrow> reducer \<Rightarrow> graph \<Rightarrow> string \<Rightarrow> state \<Rightarrow> trace \<Rightarrow> (exn + state) \<times> trace" where
  "run_node 0 add_messages g node s tr =
    (if node = END then (Inr s, tr)
     else (Inl (Exception ''GraphRecursionError'' ''Recursion limit reached''), tr))"
| "run_node (Suc limit) add_messages g node s tr =
    (if node = END then (Inr s, tr)
     else
      (case map_of (nodes g) node of
         None \<Rightarrow> (Inl (Exception ''KeyError'' node), tr)
       | Some process \<Rightarrow>
          (case process s of
             Inl e \<Rightarrow> (Inl e, tr @ [(node, s)])
           | Inr update \<Rightarrow>
              (case merge add_messages s update of
                 Inl e \<Rightarrow> (Inl e, tr @ [(node, s)])
               | Inr s' \<Rightarrow>
                  (case next_node g node s' of
                     Inl e \<Rightarrow> (Inl e, tr @ [(node, s)])
                   | Inr target \<Rightarrow> run_node limit add_messages g target s' (tr @ [(node, s)]))))))"

text \<open>
  \<^verbatim>\<open>compiled.ainvoke(initial_state)\<close>: the declared keys of the input are written to
  the channels, then the graph runs from the target of the edge out of \<^verbatim>\<open>START\<close>.
  An exception of the reducer, of a stage or of the routing leaves \<open>ainvoke\<close> as it is.
\<close>

definition ainvoke :: "nat \<Rightarrow> reducer \<Rightarrow> graph \<Rightarrow> state \<Rightarrow> (exn + state) \<times> trace" where
  "ainvoke limit add_messages g initial_state =
    (case merge add_messages empty_channels initial_state of
       Inl e \<Rightarrow> (Inl e, [])
     | Inr s \<Rightarrow>
        (case map_of (edges g) START of
           None \<Rightarrow> (Inr s, [])
         | Some entry \<Rightarrow> run_node limit add_messages g entry s []))"

text \<open>The default recursion limit of the library.\<close>

definition recursion_limit :: nat where
  "recursion_limit = 25"

text \<open>
  \<^verbatim>\<open>KarigarWorkflow.run\<close> (lines 104-114) is \<^verbatim>\<open>return await self.compiled.ainvoke(initial_state)\<close>
  and nothing else: no handler surrounds the call. The five stages are parameters, so
  that the orchestrator is described for every behaviour of its stages.
\<close>

definition run ::
  "reducer \<Rightarrow> stage \<Rightarrow> stage \<Rightarrow> stage \<Rightarrow> stage \<Rightarrow> stage \<Rightarrow> state \<Rightarrow> (exn + state) \<times> trace" where
  "run add_messages intake_process supplier_process commit_process sales_process cash_process
       initial_state =
     ainvoke recursion_limit add_messages
       (build_graph intake_process supplier_process commit_process sales_process cash_process)
       initial_state"

section \<open>Python operations used by the agents\<close>

text \<open>
  Each operation returns its value or the exception Python raises. \<open>type_name\<close> is the
  class name that Python prints in the message of the exception.
\<close>

fun type_name :: "pyval \<Rightarrow> string" where
  "type_name PNone = ''NoneType''"
| "type_name (PBool b) = ''bool''"
| "type_name (PInt i) = ''int''"
| "type_name (PStr s) = ''str''"
| "type_name (PList xs) = ''list''"
| "type_name (PDict d) = ''dict''"
| "type_name (PObj a) = ''object''"

definition AttributeError :: "pyval \<Rightarrow> string \<Rightarrow> exn" where
  "AttributeError v name =
     Exception ''AttributeError''
       ([CHR 0x27] @ type_name v @ [CHR 0x27] @ '' object has no attribute '' @
        [CHR 0x27] @ name @ [CHR 0x27])"

definition TypeError :: "pyval \<Rightarrow> string \<Rightarrow> exn" where
  "TypeError v what =
     Exception ''TypeError'' ([CHR 0x27] @ type_name v @ [CHR 0x27] @ '' object '' @ what)"

definition KeyError :: "string \<Rightarrow> exn" where
  "KeyError k = Exception ''KeyError'' ([CHR 0x27] @ k @ [CHR 0x27])"

text \<open>\<^verbatim>\<open>d.get(k, default)\<close> on the entries of a dictionary.\<close>

definition dict_get :: "(string \<times> pyval) list \<Rightarrow> string \<Rightarrow> pyval \<Rightarrow> pyval" where
  "dict_get d k dflt = (case map_of d k of None \<Rightarrow> dflt | Some v \<Rightarrow> v)"

text \<open>\<^verbatim>\<open>v.get(k, default)\<close> on any value: only a dictionary has the method.\<close>

fun py_get :: "pyval \<Rightarrow> string \<Rightarrow> pyval \<Rightarrow> exn + pyval" where
  "py_get (PDict d) k dflt = Inr (dict_get d k dflt)"
| "py_get v k dflt = Inl (AttributeError v ''get'')"

text \<open>\<^verbatim>\<open>v[k]\<close> with a string key.\<close>

fun py_getitem :: "pyval \<Rightarrow> string \<Rightarrow> exn + pyval" where
  "py_getitem (PDict d) k = (case map_of d k of None \<Rightarrow> Inl (KeyError k) | Some v \<Rightarrow> Inr v)"
| "py_getitem (PStr s) k = Inl (Exception ''TypeError'' ''string indices must be integers'')"
| "py_getitem (PList xs) k = Inl (Exception ''TypeError'' ''list indices must be integers or slices, not str'')"
| "py_getitem v k = Inl (TypeError v ''is not subscriptable'')"

text \<open>\<^verbatim>\<open>v[-1]\<close> on a truthy value.\<close>

fun py_last :: "pyval \<Rightarrow> exn + pyval" where
  "py_last (PList xs) = (if xs = [] then Inl (Exception ''IndexError'' ''list index out of range'')
                         else Inr (last xs))"
| "py_last (PStr s) = (if s = [] then Inl (Exception ''IndexError'' ''string index out of range'')
                       else Inr (PStr [last s]))"
| "py_last (PDict d) = Inl (Exception ''KeyError'' ''-1'')"
| "py_last v = Inl (TypeError v ''is not subscriptable'')"

text \<open>\<^verbatim>\<open>v.name\<close>: the attributes of an object are its entries; no other value of the
  model has one of the attributes that the agents read.\<close>

fun py_getattr :: "pyval \<Rightarrow> string \<Rightarrow> exn + pyval" where
  "py_getattr (PObj a) name =
     (case map_of a name of None \<Rightarrow> Inl (AttributeError (PObj a) name) | Some v \<Rightarrow> Inr v)"
| "py_getattr v name = Inl (AttributeError v name)"

text \<open>\<^verbatim>\<open>len(v)\<close> and the elements that \<^verbatim>\<open>for q in v\<close> visits.\<close>

fun py_len :: "pyval \<Rightarrow> exn + nat" where
  "py_len (PList xs) = Inr (length xs)"
| "py_len (PStr s) = Inr (length s)"
| "py_len (PDict d) = Inr (length d)"
| "py_len v = Inl (TypeError v ''has no len()'')"

fun py_iter :: "pyval \<Rightarrow> exn + pyval list" where
  "py_iter (PList xs) = Inr xs"
| "py_iter (PStr s) = Inr (map (\<lambda>c. PStr [c]) s)"
| "py_iter (PDict d) = Inr (map (\<lambda>kv. PStr (fst kv)) d)"
| "py_iter v = Inl (TypeError v ''is not iterable'')"

text \<open>\<^verbatim>\<open>a or b\<close>.\<close>

definition py_or :: "pyval \<Rightarrow> pyval \<Rightarrow> pyval" where
  "py_or a b = (if truthy a then a else b)"

text \<open>
  \<^verbatim>\<open>str.isspace\<close> on the code points below 256 and \<^verbatim>\<open>str.strip()\<close>: tab, line feed,
  vertical tab, form feed, carriage return, the four separators 28-31, space, next
  line (133) and no-break space (160) are white space.
\<close>

definition py_isspace :: "char \<Rightarrow> bool" where
  "py_isspace c = ((of_char c :: nat) \<in> set [9, 10, 11, 12, 13, 28, 29, 30, 31, 32, 133, 160])"

definition py_strip :: "string \<Rightarrow> string" where
  "py_strip s = rev (dropWhile py_isspace (rev (dropWhile py_isspace s)))"

text \<open>\<^verbatim>\<open>str.lower()\<close> on the code points below 256: the letters A-Z and the capital
  letters 192-222 other than the multiplication sign 215 move up by 32.\<close>

definition py_lower_char :: "char \<Rightarrow> char" where
  "py_lower_char c =
     (let n = (of_char c :: nat)
      in if (65 \<le> n \<and> n \<le> 90) \<or> (192 \<le> n \<and> n \<le> 222 \<and> n \<noteq> 215) then char_of (n + 32) else c)"

definition py_lower :: "string \<Rightarrow> string" where
  "py_lower s = map py_lower_char s"

text \<open>Running a function over a list until the first exception.\<close>

fun map_exn :: "('a \<Rightarrow> exn + 'b) \<Rightarrow> 'a list \<Rightarrow> exn + 'b list" where
  "map_exn f [] = Inr []"
| "map_exn f (x # xs) =
     (case f x of
        Inl e \<Rightarrow> Inl e
      | Inr y \<Rightarrow> (case map_exn f xs of Inl e \<Rightarrow> Inl e | Inr ys \<Rightarrow> Inr (y # ys)))"

section \<open>The contract of the agents\<close>

text \<open>The update \<^verbatim>\<open>{"status": "error", "error": message}\<close>.\<close>

definition error_update :: "string \<Rightarrow> state" where
  "error_update message = [''status'' \<mapsto> PStr ''error'', ''error'' \<mapsto> PStr message]"

text \<open>
  Every \<^verbatim>\<open>process\<close> is one \<^verbatim>\<open>try\<close> block around the whole body with the handler
  \<^verbatim>\<open>except Exception as e: return {"status": "error", "error": str(e)}\<close>.
\<close>

definition catch_all :: "exn + state \<Rightarrow> exn + state" where
  "catch_all body = (case body of Inl e \<Rightarrow> Inr (error_update (exc_str e)) | Inr u \<Rightarrow> Inr u)"

text \<open>
  The database session of an agent: \<^verbatim>\<open>get_session()\<close>, \<^verbatim>\<open>session.rollback()\<close> and
  \<^verbatim>\<open>session.close()\<close> each succeed or raise.
\<close>

record session =
  get_session_raises :: "exn option"
  rollback_raises :: "exn option"
  close_raises :: "exn option"

text \<open>
  \<^verbatim>\<open>try: body except Exception as e: session.rollback(); return handler(e) finally:
  session.close()\<close>. An exception of the rollback leaves the handler; an exception of
  \<^verbatim>\<open>close\<close> replaces whatever the block was about to return or raise.
\<close>

definition with_session :: "session \<Rightarrow> exn + state \<Rightarrow> (exn \<Rightarrow> state) \<Rightarrow> exn + state" where
  "with_session db body handler =
     (let outcome =
        (case body of
           Inr u \<Rightarrow> Inr u
         | Inl e \<Rightarrow> (case rollback_raises db of Some e' \<Rightarrow> Inl e' | None \<Rightarrow> Inr (handler e)))
      in case close_raises db of Some e' \<Rightarrow> Inl e' | None \<Rightarrow> outcome)"

section \<open>IntakeAgent\<close>

text \<open>
  The collaborators of \<^verbatim>\<open>IntakeAgent.process\<close> (agents/intake_agent.py) are parameters:
  \<open>intake_str\<close> is \<^verbatim>\<open>str(v)\<close> of a value that is not a string; \<open>intake_llm\<close> is
  \<^verbatim>\<open>self.llm\<close>, absent without an API key, and gives \<^verbatim>\<open>invoke(prompt).content.strip()\<close>
  for the prompt built around the user's input; \<open>intake_json\<close> is the removal of the
  code fences followed by \<^verbatim>\<open>json.loads\<close>; \<open>intake_fallback\<close> is \<^verbatim>\<open>_fallback_extract\<close>;
  \<open>intake_float\<close> is \<^verbatim>\<open>float(v)\<close>; \<open>intake_save\<close> is the database work of lines
  142-168 and gives the id of the stored request.
\<close>

record intake_env =
  intake_str :: "pyval \<Rightarrow> string"
  intake_llm :: "(string \<Rightarrow> exn + string) option"
  intake_json :: "string \<Rightarrow> exn + pyval"
  intake_fallback :: "string \<Rightarrow> exn + pyval"
  intake_float :: "pyval \<Rightarrow> exn + pyval"
  intake_db :: session
  intake_save :: "pyval \<Rightarrow> state \<Rightarrow> pyval \<Rightarrow> exn + pyval"

definition py_str :: "(pyval \<Rightarrow> string) \<Rightarrow> pyval \<Rightarrow> string" where
  "py_str str_of v = (case v of PStr s \<Rightarrow> s | _ \<Rightarrow> str_of v)"

text \<open>Lines 53-61: the content of the last message, or the empty string.\<close>

definition last_user_input :: "(pyval \<Rightarrow> string) \<Rightarrow> state \<Rightarrow> exn + pyval" where
  "last_user_input str_of state =
     (let messages = (case state ''messages'' of None \<Rightarrow> PList [] | Some m \<Rightarrow> m)
      in if truthy messages then
           (case py_last messages of
              Inl e \<Rightarrow> Inl e
            | Inr last_message \<Rightarrow>
               (case last_message of
                  PDict d \<Rightarrow> Inr (dict_get d ''content'' (PStr []))
                | PObj a \<Rightarrow> Inr (dict_get a ''content'' (PStr (py_str str_of last_message)))
                | _ \<Rightarrow> Inr (PStr (py_str str_of last_message))))
         else Inr (PStr []))"

text \<open>Lines 111-172: validation, normalisation and the database block.\<close>

definition intake_store :: "intake_env \<Rightarrow> state \<Rightarrow> pyval \<Rightarrow> exn + state" where
  "intake_store env state material_data =
     (case material_data of
        PDict d \<Rightarrow>
          if \<not> truthy (dict_get d ''material'' PNone)
            then Inr (error_update ''Material type not specified'')
          else if \<not> truthy (dict_get d ''quantity'' PNone)
            then Inr (error_update ''Quantity not specified'')
          else
           (case intake_float env (dict_get d ''quantity'' (PInt 0)) of
              Inl e \<Rightarrow> Inl e
            | Inr quantity \<Rightarrow>
               (case intake_float env (py_or (dict_get d ''budget'' PNone) (PInt 0)) of
                  Inl e \<Rightarrow> Inl e
                | Inr budget \<Rightarrow>
                   (let material_request =
                          PDict [(''material'',
                                    PStr (py_lower (py_str (intake_str env)
                                                      (dict_get d ''material'' (PStr []))))),
                                 (''quantity'', quantity),
                                 (''unit'', py_or (dict_get d ''unit'' PNone) (PStr ''units'')),
                                 (''budget'', budget),
                                 (''timeline'', py_or (dict_get d ''timeline'' PNone) (PStr ''ASAP'')),
                                 (''location'', py_or (dict_get d ''location'' PNone)
                                                      (state_get state ''artisan_location''))];
                        artisan_id =
                          (if truthy (state_get state ''artisan_id'') then state_get state ''artisan_id''
                           else (case state ''artisan_phone'' of
                                   None \<Rightarrow> PStr ''default-artisan'' | Some phone \<Rightarrow> phone))
                    in case get_session_raises (intake_db env) of
                         Some e \<Rightarrow> Inl e
                       | None \<Rightarrow>
                          with_session (intake_db env)
                            (case intake_save env artisan_id state material_request of
                               Inl e \<Rightarrow> Inl e
                             | Inr request_id \<Rightarrow>
                                Inr [''material_request'' \<mapsto> material_request,
                                     ''request_id'' \<mapsto> request_id,
                                     ''artisan_id'' \<mapsto> artisan_id,
                                     ''status'' \<mapsto> PStr ''intake_complete''])
                            (\<lambda>e. error_update (''Database error: '' @ exc_str e)))))
      | v \<Rightarrow> Inl (AttributeError v ''get''))"

text \<open>Lines 89-108: the material data come from the model's answer or from the
  rule-based extractor; only a \<^verbatim>\<open>JSONDecodeError\<close> is handled on the spot.\<close>

definition intake_extract :: "intake_env \<Rightarrow> state \<Rightarrow> string \<Rightarrow> exn + state" where
  "intake_extract env state user_input =
     (case intake_llm env of
        Some invoke \<Rightarrow>
          (case invoke user_input of
             Inl e \<Rightarrow> Inl e
           | Inr response_text \<Rightarrow>
              (case intake_json env response_text of
                 Inl e \<Rightarrow>
                   if exc_type e = ''JSONDecodeError''
                   then Inr (error_update ''Failed to parse material request'')
                   else Inl e
               | Inr material_data \<Rightarrow> intake_store env state material_data))
      | None \<Rightarrow>
          (case intake_fallback env user_input of
             Inl e \<Rightarrow> Inl e
           | Inr material_data \<Rightarrow> intake_store env state material_data))"

text \<open>The body of the \<^verbatim>\<open>try\<close> block, lines 52-195, and \<^verbatim>\<open>process\<close> itself.\<close>

definition IntakeAgent_body :: "intake_env \<Rightarrow> state \<Rightarrow> exn + state" where
  "IntakeAgent_body env state =
     (case last_user_input (intake_str env) state of
        Inl e \<Rightarrow> Inl e
      | Inr found \<Rightarrow>
         (case py_or found (PStr []) of
            PStr user_input \<Rightarrow>
              if py_strip user_input = [] then Inr (error_update ''No input provided'')
              else intake_extract env state user_input
          | v \<Rightarrow> Inl (AttributeError v ''strip'')))"

definition IntakeAgent_process :: "intake_env \<Rightarrow> stage" where
  "IntakeAgent_process env state = catch_all (IntakeAgent_body env state)"

text \<open>
  The inputs of claim C8, in the specification's words: the \<^verbatim>\<open>messages\<close> field is
  absent, or empty, or its last message has blank content. Blank is a string of white
  space only, or a value that Python takes for false; a dictionary message without
  \<^verbatim>\<open>content\<close> counts as blank, as does a bare string of white space.
\<close>

definition blank :: "pyval \<Rightarrow> bool" where
  "blank v = (case v of PStr s \<Rightarrow> py_strip s = [] | _ \<Rightarrow> \<not> truthy v)"

definition blank_message :: "pyval \<Rightarrow> bool" where
  "blank_message m =
     (case m of
        PDict d \<Rightarrow> (case map_of d ''content'' of None \<Rightarrow> True | Some c \<Rightarrow> blank c)
      | PObj a \<Rightarrow> (case map_of a ''content'' of None \<Rightarrow> False | Some c \<Rightarrow> blank c)
      | PStr s \<Rightarrow> py_strip s = []
      | _ \<Rightarrow> False)"

definition no_input :: "state \<Rightarrow> bool" where
  "no_input state =
     (case state ''messages'' of
        None \<Rightarrow> True
      | Some messages \<Rightarrow>
         (if \<not> truthy messages then True
          else (case messages of PList ms \<Rightarrow> blank_message (last ms) | _ \<Rightarrow> False)))"

section \<open>SupplierAgent\<close>

text \<open>
  \<open>supplier_search\<close> is \<^verbatim>\<open>await self.search_tool.search(material, location, ...)\<close> and
  \<open>generate_quotes\<close> is \<^verbatim>\<open>self.quote_tool.generate_quotes_for_request(request_id,
  suppliers)\<close> (agents/supplier_agent.py).
\<close>

record supplier_env =
  supplier_search :: "pyval \<Rightarrow> pyval \<Rightarrow> exn + pyval"
  generate_quotes :: "pyval \<Rightarrow> pyval \<Rightarrow> exn + pyval"

text \<open>Lines 64-73: one quote object as a dictionary.\<close>

definition quote_dict :: "pyval \<Rightarrow> exn + pyval" where
  "quote_dict q =
     (case map_exn (py_getattr q)
             [''id'', ''supplier_id'', ''price_per_unit'', ''total_price'', ''delivery_charge'',
              ''delivery_days''] of
        Inl e \<Rightarrow> Inl e
      | Inr vs \<Rightarrow>
         Inr (PDict (zip [''id'', ''supplier_id'', ''price_per_unit'', ''total_price'',
                          ''delivery_charge'', ''delivery_days''] vs)))"

definition SupplierAgent_body :: "supplier_env \<Rightarrow> state \<Rightarrow> exn + state" where
  "SupplierAgent_body env state =
     (let request_id = state_get state ''request_id'';
          material_request = state_get state ''material_request''
      in if \<not> truthy request_id \<or> \<not> truthy material_request
         then Inr (error_update ''Missing material request details.'')
         else
          (case py_getitem material_request ''material'' of
             Inl e \<Rightarrow> Inl e
           | Inr material \<Rightarrow>
              (case py_get material_request ''location'' (PStr ''Delhi'') of
                 Inl e \<Rightarrow> Inl e
               | Inr location \<Rightarrow>
                  (case supplier_search env material location of
                     Inl e \<Rightarrow> Inl e
                   | Inr suppliers \<Rightarrow>
                      if \<not> truthy suppliers
                      then Inr (error_update ''No suppliers found for the material and location.'')
                      else
                       (case py_len suppliers of
                          Inl e \<Rightarrow> Inl e
                        | Inr count \<Rightarrow>
                           (case generate_quotes env request_id suppliers of
                              Inl e \<Rightarrow> Inl e
                            | Inr quotes \<Rightarrow>
                               if \<not> truthy quotes
                               then Inr (error_update ''Failed to generate quotes.'')
                               else
                                (case py_iter quotes of
                                   Inl e \<Rightarrow> Inl e
                                 | Inr qs \<Rightarrow>
                                    (case map_exn quote_dict qs of
                                       Inl e \<Rightarrow> Inl e
                                     | Inr quotes_list \<Rightarrow>
                                        Inr [''supplier_quotes'' \<mapsto> PList quotes_list,
                                             ''status'' \<mapsto> PStr ''supplier_search_complete''
                                            ]))))))))"

definition SupplierAgent_process :: "supplier_env \<Rightarrow> stage" where
  "SupplierAgent_process env state = catch_all (SupplierAgent_body env state)"

section \<open>CommitAgent\<close>

text \<open>
  \<open>select_cheapest\<close> is \<^verbatim>\<open>min(quotes, key=...)\<close>; \<open>fetch_order_objects\<close> is the four
  queries of lines 50-53 (agents/commit_agent.py) and gives the quote, the artisan, the
  supplier and the request; \<open>place_order\<close> is lines 58-110 and gives the order id, the
  total amount, the payment package and the path of the purchase order.
\<close>

record commit_env =
  select_cheapest :: "pyval \<Rightarrow> exn + pyval"
  commit_db :: session
  fetch_order_objects :: "pyval \<Rightarrow> pyval \<Rightarrow> pyval \<Rightarrow> exn + pyval list"
  place_order :: "pyval \<Rightarrow> pyval \<Rightarrow> pyval list \<Rightarrow> exn + (pyval \<times> pyval \<times> pyval \<times> pyval)"

definition CommitAgent_body :: "commit_env \<Rightarrow> state \<Rightarrow> exn + state" where
  "CommitAgent_body env state =
     (let quotes = state_get state ''supplier_quotes'';
          request_id = state_get state ''request_id'';
          artisan_id = state_get state ''artisan_id''
      in if \<not> truthy quotes then Inr (error_update ''No supplier quotes available to commit.'')
         else
          (case py_len quotes of
             Inl e \<Rightarrow> Inl e
           | Inr count \<Rightarrow>
              (case select_cheapest env quotes of
                 Inl e \<Rightarrow> Inl e
               | Inr selected_quote_dict \<Rightarrow>
                  (case py_getitem selected_quote_dict ''id'' of
                     Inl e \<Rightarrow> Inl e
                   | Inr quote_id \<Rightarrow>
                      (case get_session_raises (commit_db env) of
                         Some e \<Rightarrow> Inl e
                       | None \<Rightarrow>
                          with_session (commit_db env)
                            (case fetch_order_objects env quote_id artisan_id request_id of
                               Inl e \<Rightarrow> Inl e
                             | Inr objects \<Rightarrow>
                                if \<not> list_all truthy objects
                                then Inr (error_update
                                            ''Could not retrieve full order details from DB.'')
                                else
                                 (case place_order env artisan_id request_id objects of
                                    Inl e \<Rightarrow> Inl e
                                  | Inr (order_id, total_amount, payment_package, po_path) \<Rightarrow>
                                     Inr [''order_id'' \<mapsto> order_id,
                                          ''selected_quote'' \<mapsto> selected_quote_dict,
                                          ''order_details'' \<mapsto>
                                             PDict [(''total_amount'', total_amount),
                                                    (''status'', PStr ''confirmed'')],
                                          ''payment_info'' \<mapsto> payment_package,
                                          ''po_path'' \<mapsto> po_path,
                                          ''status'' \<mapsto> PStr ''commit_complete'']))
                            (\<lambda>e. error_update (''DB/File Error: '' @ exc_str e)))))))"

definition CommitAgent_process :: "commit_env \<Rightarrow> stage" where
  "CommitAgent_process env state = catch_all (CommitAgent_body env state)"

section \<open>SalesAgent\<close>

text \<open>
  \<open>find_store\<close> and \<open>find_artisan\<close> are the two queries of agents/sales_agent.py;
  \<open>create_store\<close> is lines 54-81 and gives the id and the URL of the new store.
\<close>

record sales_env =
  sales_db :: session
  find_store :: "pyval \<Rightarrow> exn + pyval"
  find_artisan :: "pyval \<Rightarrow> exn + pyval"
  create_store :: "pyval \<Rightarrow> pyval \<Rightarrow> exn + (pyval \<times> pyval)"

definition SalesAgent_body :: "sales_env \<Rightarrow> state \<Rightarrow> exn + state" where
  "SalesAgent_body env state =
     (let artisan_id = state_get state ''artisan_id'';
          order_details = state_get state ''order_details''
      in if \<not> truthy artisan_id \<or> \<not> truthy order_details
         then Inr [''status'' \<mapsto> PStr ''sales_skipped'']
         else
          (case get_session_raises (sales_db env) of
             Some e \<Rightarrow> Inl e
           | None \<Rightarrow>
              with_session (sales_db env)
                (case find_store env artisan_id of
                   Inl e \<Rightarrow> Inl e
                 | Inr existing_store \<Rightarrow>
                    if truthy existing_store
                    then (case py_getattr existing_store ''store_url'' of
                            Inl e \<Rightarrow> Inl e
                          | Inr url \<Rightarrow>
                             Inr [''store_url'' \<mapsto> url, ''status'' \<mapsto> PStr ''sales_skipped''])
                    else
                     (case find_artisan env artisan_id of
                        Inl e \<Rightarrow> Inl e
                      | Inr artisan \<Rightarrow>
                         if \<not> truthy artisan then Inr (error_update ''Artisan not found.'')
                         else
                          (case create_store env artisan_id artisan of
                             Inl e \<Rightarrow> Inl e
                           | Inr (store_id, store_url) \<Rightarrow>
                              Inr [''store_id'' \<mapsto> store_id,
                                   ''store_url'' \<mapsto> store_url,
                                   ''status'' \<mapsto> PStr ''sales_complete''])))
                (\<lambda>e. error_update (''DB/File Error: '' @ exc_str e))))"

definition SalesAgent_process :: "sales_env \<Rightarrow> stage" where
  "SalesAgent_process env state = catch_all (SalesAgent_body env state)"

section \<open>CashAgent\<close>

text \<open>
  \<open>last_balance\<close> is the query for the artisan's running balance and \<open>record_debit\<close>
  the creation of the ledger entry with its commit (agents/cash_agent.py, lines 38-56).
\<close>

record cash_env =
  cash_db :: session
  last_balance :: "pyval \<Rightarrow> exn + pyval"
  record_debit :: "pyval \<Rightarrow> pyval \<Rightarrow> pyval \<Rightarrow> pyval \<Rightarrow> exn option"

text \<open>A field is missing for an agent when \<^verbatim>\<open>state.get\<close> gives a value that Python
  takes for false: the key is absent, or it holds \<^verbatim>\<open>None\<close> or an empty value.\<close>

definition missing :: "state \<Rightarrow> string \<Rightarrow> bool" where
  "missing state k = (\<not> truthy (state_get state k))"

definition CashAgent_body :: "cash_env \<Rightarrow> state \<Rightarrow> exn + state" where
  "CashAgent_body env state =
     (let artisan_id = state_get state ''artisan_id'';
          order_id = state_get state ''order_id'';
          order_details = state_get state ''order_details''
      in if \<not> list_all truthy [artisan_id, order_id, order_details]
         then Inr [''status'' \<mapsto> PStr ''cash_skipped'']
         else
          (case get_session_raises (cash_db env) of
             Some e \<Rightarrow> Inl e
           | None \<Rightarrow>
              with_session (cash_db env)
                (case last_balance env artisan_id of
                   Inl e \<Rightarrow> Inl e
                 | Inr current_balance \<Rightarrow>
                    (case py_get order_details ''total_amount'' (PInt 0) of
                       Inl e \<Rightarrow> Inl e
                     | Inr amount \<Rightarrow>
                        (case record_debit env artisan_id order_id current_balance amount of
                           Some e \<Rightarrow> Inl e
                         | None \<Rightarrow> Inr [''status'' \<mapsto> PStr ''cash_complete''])))
                (\<lambda>e. error_update (''DB Error: '' @ exc_str e))))"

definition CashAgent_process :: "cash_env \<Rightarrow> stage" where
  "CashAgent_process env state = catch_all (CashAgent_body env state)"

section \<open>Describing the invocations of a run\<close>

text \<open>
  \<open>execution\<close> reads a list of invocations as the record of a run that starts at
  \<open>node\<close> in state \<open>s\<close> and ends with \<open>res\<close>: each entry is a stage invoked on the
  state it was given; a stage that raises, a reducer that raises and a routing error
  end the run with that exception; otherwise the run goes on from the routed node with
  the merged state, and ends normally when the routed node is \<open>END\<close>.
\<close>

fun execution :: "reducer \<Rightarrow> graph \<Rightarrow> string \<Rightarrow> state \<Rightarrow> trace \<Rightarrow> exn + state \<Rightarrow> bool" where
  "execution add_messages g node s [] res = (node = END \<and> res = Inr s)"
| "execution add_messages g node s ((n, s') # rest) res =
    (n = node \<and> s' = s \<and> node \<noteq> END \<and>
     (case map_of (nodes g) node of
        None \<Rightarrow> False
      | Some process \<Rightarrow>
         (case process s of
            Inl e \<Rightarrow> rest = [] \<and> res = Inl e
          | Inr update \<Rightarrow>
             (case merge add_messages s update of
                Inl e \<Rightarrow> rest = [] \<and> res = Inl e
              | Inr s1 \<Rightarrow>
                 (case next_node g node s1 of
                    Inl e \<Rightarrow> rest = [] \<and> res = Inl e
                  | Inr target \<Rightarrow> execution add_messages g target s1 rest res)))))"

text \<open>The five stage names in the order of the conditional edges, and the part of that
  order that starts at a node.\<close>

definition stage_order :: "string list" where
  "stage_order = [''intake'', ''supplier'', ''commit'', ''sales'', ''cash'']"

definition remaining :: "string \<Rightarrow> string list" where
  "remaining node = dropWhile (\<lambda>n. n \<noteq> node) stage_order"

section \<open>Concrete scenarios\<close>

text \<open>
  A reducer for the scenarios below: it appends the new list of messages to the stored
  one and rejects a value that is not a list. \<^verbatim>\<open>add_messages\<close> gives the same list
  when the messages carry pairwise distinct ids.
\<close>

definition append_messages :: reducer where
  "append_messages old new =
    (case (old, new) of
       (PList xs, PList ys) \<Rightarrow> Inr (PList (xs @ ys))
     | _ \<Rightarrow> Inl (Exception ''ValueError'' ''unsupported message''))"

text \<open>The initial state that \<^verbatim>\<open>api/agent_routes.py\<close> (lines 28-34) hands to \<^verbatim>\<open>run\<close>.\<close>

definition started_state :: state where
  "started_state =
    [''messages'' \<mapsto> PList [PDict [(''role'', PStr ''user''), (''content'', PStr ''50 bags of cement'')]],
     ''artisan_id'' \<mapsto> PStr ''A1'',
     ''artisan_phone'' \<mapsto> PStr ''5550100'',
     ''artisan_name'' \<mapsto> PStr ''Asha'',
     ''status'' \<mapsto> PStr ''started'']"

text \<open>The same input, except that its status is already \<open>''error''\<close>.\<close>

definition failed_state :: state where
  "failed_state = started_state(''status'' \<mapsto> PStr ''error'')"

text \<open>Stages that return a fixed update, as test doubles of the five agents would.\<close>

definition intake_done :: stage where
  "intake_done s =
    Inr [''status'' \<mapsto> PStr ''intake_complete'',
         ''request_id'' \<mapsto> PStr ''R1'',
         ''material_request'' \<mapsto> PDict [(''material'', PStr ''cement''), (''quantity'', PInt 50)]]"

definition supplier_done :: stage where
  "supplier_done s =
    Inr [''status'' \<mapsto> PStr ''supplier_search_complete'',
         ''supplier_quotes'' \<mapsto> PList [PDict [(''id'', PInt 1), (''total_price'', PInt 900)]]]"

definition supplier_none :: stage where
  "supplier_none s =
    Inr [''status'' \<mapsto> PStr ''error'', ''error'' \<mapsto> PStr ''No suppliers found'']"

definition commit_done :: stage where
  "commit_done s =
    Inr [''status'' \<mapsto> PStr ''commit_complete'',
         ''order_id'' \<mapsto> PStr ''O1'',
         ''order_details'' \<mapsto> PDict [(''total_amount'', PInt 950), (''status'', PStr ''confirmed'')]]"

definition sales_skip :: stage where
  "sales_skip s = Inr [''status'' \<mapsto> PStr ''sales_skipped'']"

definition cash_done :: stage where
  "cash_done s = Inr [''status'' \<mapsto> PStr ''cash_complete'']"

text \<open>A stage that raises instead of returning an update.\<close>

definition raising_stage :: stage where
  "raising_stage s = Inl (Exception ''RuntimeError'' ''connection lost'')"

text \<open>A state with one stored message and an update that brings a second one.\<close>

definition one_message_state :: state where
  "one_message_state =
    [''messages'' \<mapsto> PList [PObj [(''id'', PStr ''m1''), (''content'', PStr ''hello'')]],
     ''status'' \<mapsto> PStr ''started'']"

definition message_update :: state where
  "message_update =
    [''messages'' \<mapsto> PList [PObj [(''id'', PStr ''m2''), (''content'', PStr ''again'')]]]"

text \<open>
  Collaborators for the scenarios: a database session that never fails; an intake agent
  without a language model, whose extractor finds cement; a search that finds no
  supplier; a ledger that accepts every entry.
\<close>

definition plain_session :: session where
  "plain_session = \<lparr> get_session_raises = None, rollback_raises = None, close_raises = None \<rparr>"

definition offline_intake :: intake_env where
  "offline_intake =
    \<lparr> intake_str = (\<lambda>v. ''<object>''),
      intake_llm = None,
      intake_json = (\<lambda>text. Inl (Exception ''JSONDecodeError'' ''Expecting value'')),
      intake_fallback =
        (\<lambda>text. Inr (PDict [(''material'', PStr ''cement''), (''quantity'', PInt 50),
                              (''unit'', PStr ''bags''), (''budget'', PNone),
                              (''timeline'', PNone), (''location'', PNone)])),
      intake_float = (\<lambda>v. Inr v),
      intake_db = plain_session,
      intake_save = (\<lambda>artisan_id state material_request. Inr (PStr ''R1'')) \<rparr>"

definition empty_search :: supplier_env where
  "empty_search =
    \<lparr> supplier_search = (\<lambda>material location. Inr (PList [])),
      generate_quotes = (\<lambda>request_id suppliers. Inr (PList [])) \<rparr>"

definition failing_commit :: commit_env where
  "failing_commit =
    \<lparr> select_cheapest = (\<lambda>quotes. Inl (Exception ''KeyError'' ''total_price'')),
      commit_db = plain_session,
      fetch_order_objects = (\<lambda>quote_id artisan_id request_id. Inr []),
      place_order =
        (\<lambda>artisan_id request_id objects. Inl (Exception ''OSError'' ''disk full'')) \<rparr>"

definition no_store :: sales_env where
  "no_store =
    \<lparr> sales_db = plain_session,
      find_store = (\<lambda>artisan_id. Inr PNone),
      find_artisan = (\<lambda>artisan_id. Inr PNone),
      create_store =
        (\<lambda>artisan_id artisan. Inl (Exception ''OSError'' ''disk full'')) \<rparr>"

definition open_ledger :: cash_env where
  "open_ledger =
    \<lparr> cash_db = plain_session,
      last_balance = (\<lambda>artisan_id. Inr (PInt 0)),
      record_debit = (\<lambda>artisan_id order_id balance amount. None) \<rparr>"

text \<open>A state whose only message is white space.\<close>

definition blank_message_state :: state where
  "blank_message_state =
    [''messages'' \<mapsto> PList [PDict [(''role'', PStr ''user''), (''content'', PStr ''   '')]],
     ''status'' \<mapsto> PStr ''started'']"

text \<open>Reading a scenario's outcome: a field of the returned state (nothing when the
  run raised), and the names of the invoked stages.\<close>

definition field_of :: "exn + state \<Rightarrow> string \<Rightarrow> pyval option" where
  "field_of r k = (case r of Inl e \<Rightarrow> None | Inr s \<Rightarrow> s k)"

definition invoked :: "trace \<Rightarrow> string list" where
  "invoked tr = map fst tr"

lemmas scenario_defs =
  run_def ainvoke_def recursion_limit_def build_graph_def merge_def empty_channels_def
  KarigarState_keys_def write_channel_def START_def END_def next_node_def
  should_continue_def state_get_def run_async_node_def append_messages_def
  started_state_def failed_state_def intake_done_def supplier_done_def supplier_none_def
  commit_done_def sales_skip_def cash_done_def raising_stage_def one_message_state_def
  message_update_def field_of_def invoked_def

section \<open>Facts about merging, routing and execution\<close>

subsection \<open>Merging\<close>

lemma fold_write_channel:
  "fold (write_channel u) ks s k =
     (if k \<in> set ks then (case u k of None \<Rightarrow> s k | Some v \<Rightarrow> Some v) else s k)"
  by (induction ks arbitrary: s) (auto simp: write_channel_def split: option.splits)

lemma plain_keys:
  "set (remove1 ''messages'' KarigarState_keys) = set KarigarState_keys - {''messages''}"
  by (simp add: KarigarState_keys_def)

lemma merge_lookup:
  assumes "merge addm s u = Inr s'"
  shows "s' k =
    (if k = ''messages''
     then (case u ''messages'' of
             None \<Rightarrow> s ''messages''
           | Some new \<Rightarrow>
              (case addm (case s ''messages'' of None \<Rightarrow> PList [] | Some old \<Rightarrow> old) new of
                 Inr c \<Rightarrow> Some c | Inl e \<Rightarrow> None))
     else if k \<in> set KarigarState_keys then (case u k of None \<Rightarrow> s k | Some v \<Rightarrow> Some v)
     else s k)"
proof (cases "u ''messages''")
  case None
  with assms have "s' = fold (write_channel u) (remove1 ''messages'' KarigarState_keys) s"
    by (simp add: merge_def)
  then show ?thesis using None
    by (simp add: fold_write_channel plain_keys)
next
  case (Some new)
  show ?thesis
  proof (cases "addm (case s ''messages'' of None \<Rightarrow> PList [] | Some old \<Rightarrow> old) new")
    case (Inl e)
    with assms Some show ?thesis by (simp add: merge_def)
  next
    case (Inr c)
    with assms Some
    have "s' = (fold (write_channel u) (remove1 ''messages'' KarigarState_keys) s)(''messages'' \<mapsto> c)"
      by (simp add: merge_def)
    then show ?thesis using Some Inr
      by (simp add: fold_write_channel plain_keys)
  qed
qed

lemma merge_status:
  "merge addm s u = Inr s' \<Longrightarrow> u ''status'' = Some v \<Longrightarrow> s' ''status'' = Some v"
  by (simp add: merge_lookup [of addm s u s' "''status''"] KarigarState_keys_def)

lemma merge_no_messages:
  "u ''messages'' = None \<Longrightarrow> \<exists>s'. merge addm s u = Inr s'"
  by (simp add: merge_def Let_def)



subsection \<open>The graph of the workflow\<close>

lemma node_names:
  "map_of (nodes (build_graph i su c sa ca)) n = Some p \<Longrightarrow>
     n = ''intake'' \<or> n = ''supplier'' \<or> n = ''commit'' \<or> n = ''sales'' \<or> n = ''cash''"
  by (simp add: build_graph_def split: if_splits)

lemma node_lookup:
  "map_of (nodes (build_graph i su c sa ca)) ''intake'' = Some i"
  "map_of (nodes (build_graph i su c sa ca)) ''supplier'' = Some su"
  "map_of (nodes (build_graph i su c sa ca)) ''commit'' = Some c"
  "map_of (nodes (build_graph i su c sa ca)) ''sales'' = Some sa"
  "map_of (nodes (build_graph i su c sa ca)) ''cash'' = Some ca"
  by (simp_all add: build_graph_def run_async_node_def)

lemma next_node_end:
  assumes "map_of (nodes (build_graph i su c sa ca)) n = Some p"
    and "should_continue s = ''end''"
  shows "next_node (build_graph i su c sa ca) n s = Inr END"
proof -
  from node_names [OF assms(1)] show ?thesis
  proof (elim disjE)
    assume "n = ''intake''" then show ?thesis
      by (simp add: next_node_def build_graph_def START_def assms(2))
  next
    assume "n = ''supplier''" then show ?thesis
      by (simp add: next_node_def build_graph_def START_def assms(2))
  next
    assume "n = ''commit''" then show ?thesis
      by (simp add: next_node_def build_graph_def START_def assms(2))
  next
    assume "n = ''sales''" then show ?thesis
      by (simp add: next_node_def build_graph_def START_def assms(2))
  next
    assume "n = ''cash''" then show ?thesis
      by (simp add: next_node_def build_graph_def START_def assms(2))
  qed
qed

lemma should_continue_error:
  "s ''status'' = Some (PStr ''error'') \<Longrightarrow> should_continue s = ''end''"
  by (simp add: should_continue_def state_get_def)

lemma next_node_error:
  assumes "map_of (nodes (build_graph i su c sa ca)) n = Some p"
    and "s ''status'' = Some (PStr ''error'')"
  shows "next_node (build_graph i su c sa ca) n s = Inr END"
  by (rule next_node_end [OF assms(1)]) (simp add: should_continue_error assms(2))

lemma run_node_END: "run_node limit addm g END s tr = (Inr s, tr)"
  by (cases limit) simp_all


lemma remaining_simps:
  "remaining ''intake'' = [''intake'', ''supplier'', ''commit'', ''sales'', ''cash'']"
  "remaining ''supplier'' = [''supplier'', ''commit'', ''sales'', ''cash'']"
  "remaining ''commit'' = [''commit'', ''sales'', ''cash'']"
  "remaining ''sales'' = [''sales'', ''cash'']"
  "remaining ''cash'' = [''cash'']"
  "remaining END = []"
  by (simp_all add: remaining_def stage_order_def END_def)

lemma conditional_lookup:
  "map_of (edges (build_graph i su c sa ca)) ''intake'' = None"
  "map_of (edges (build_graph i su c sa ca)) ''supplier'' = None"
  "map_of (edges (build_graph i su c sa ca)) ''commit'' = None"
  "map_of (edges (build_graph i su c sa ca)) ''sales'' = None"
  "map_of (edges (build_graph i su c sa ca)) ''cash'' = None"
  "map_of (conditional_edges (build_graph i su c sa ca)) ''intake'' = Some [(''supplier'', ''supplier''), (''end'', END)]"
  "map_of (conditional_edges (build_graph i su c sa ca)) ''supplier'' = Some [(''commit'', ''commit''), (''end'', END)]"
  "map_of (conditional_edges (build_graph i su c sa ca)) ''commit'' = Some [(''sales'', ''sales''), (''end'', END)]"
  "map_of (conditional_edges (build_graph i su c sa ca)) ''sales'' = Some [(''cash'', ''cash''), (''end'', END)]"
  "map_of (conditional_edges (build_graph i su c sa ca)) ''cash'' = Some [(''end'', END)]"
  by (simp_all add: build_graph_def START_def)

lemma next_node_intake:
  "next_node (build_graph i su c sa ca) ''intake'' s = Inr t \<Longrightarrow> t = END \<or> t = ''supplier''"
  by (simp add: next_node_def conditional_lookup split: if_splits)

lemma next_node_supplier:
  "next_node (build_graph i su c sa ca) ''supplier'' s = Inr t \<Longrightarrow> t = END \<or> t = ''commit''"
  by (simp add: next_node_def conditional_lookup split: if_splits)

lemma next_node_commit:
  "next_node (build_graph i su c sa ca) ''commit'' s = Inr t \<Longrightarrow> t = END \<or> t = ''sales''"
  by (simp add: next_node_def conditional_lookup split: if_splits)

lemma next_node_sales:
  "next_node (build_graph i su c sa ca) ''sales'' s = Inr t \<Longrightarrow> t = END \<or> t = ''cash''"
  by (simp add: next_node_def conditional_lookup split: if_splits)

lemma next_node_cash:
  "next_node (build_graph i su c sa ca) ''cash'' s = Inr t \<Longrightarrow> t = END"
  by (simp add: next_node_def conditional_lookup split: if_splits)

lemma next_node_remaining:
  assumes "next_node (build_graph i su c sa ca) node s = Inr t"
    and "node \<in> set stage_order"
  shows "(t = END \<or> t \<in> set stage_order) \<and> (t = END \<or> remaining node = node # remaining t)"
proof -
  from assms(2) have "node = ''intake'' \<or> node = ''supplier'' \<or> node = ''commit''
      \<or> node = ''sales'' \<or> node = ''cash''"
    by (simp add: stage_order_def)
  then show ?thesis
  proof (elim disjE)
    assume n: "node = ''intake''"
    with assms(1) next_node_intake have "t = END \<or> t = ''supplier''" by blast
    then show ?thesis using n by (auto simp: remaining_simps stage_order_def)
  next
    assume n: "node = ''supplier''"
    with assms(1) next_node_supplier have "t = END \<or> t = ''commit''" by blast
    then show ?thesis using n by (auto simp: remaining_simps stage_order_def)
  next
    assume n: "node = ''commit''"
    with assms(1) next_node_commit have "t = END \<or> t = ''sales''" by blast
    then show ?thesis using n by (auto simp: remaining_simps stage_order_def)
  next
    assume n: "node = ''sales''"
    with assms(1) next_node_sales have "t = END \<or> t = ''cash''" by blast
    then show ?thesis using n by (auto simp: remaining_simps stage_order_def)
  next
    assume n: "node = ''cash''"
    with assms(1) next_node_cash have "t = END" by blast
    then show ?thesis by simp
  qed
qed

lemma stage_order_not_END: "node \<in> set stage_order \<Longrightarrow> node \<noteq> END"
  by (auto simp: stage_order_def END_def)

lemma stage_order_nodes:
  "node \<in> set stage_order \<Longrightarrow> \<exists>p. map_of (nodes (build_graph i su c sa ca)) node = Some p"
  by (auto simp: stage_order_def node_lookup)

lemma remaining_head: "node \<in> set stage_order \<Longrightarrow> \<exists>rest. remaining node = node # rest"
  by (auto simp: stage_order_def remaining_simps)

subsection \<open>Every run of the graph is an execution\<close>

text \<open>
  Within the recursion limit, what \<open>run_node\<close> appends to the trace is an execution
  from the node it starts at; the names it invokes follow the order of the stages.
\<close>

lemma run_node_execution:
  assumes "run_node limit addm (build_graph i su c sa ca) node s0 tr0 = (res, tr)"
    and "node = END \<or> node \<in> set stage_order"
    and "length (remaining node) \<le> limit"
  shows "\<exists>steps. tr = tr0 @ steps \<and> execution addm (build_graph i su c sa ca) node s0 steps res"
  using assms
proof (induction limit arbitrary: node s0 tr0)
  case 0
  from "0.prems"(3) have "remaining node = []" by simp
  with remaining_head [of node] "0.prems"(2) have "node = END" by auto
  with "0.prems"(1) have "tr = tr0 @ []" "res = Inr s0" by simp_all
  with \<open>node = END\<close> show ?case by simp
next
  case (Suc limit)
  let ?G = "build_graph i su c sa ca"
  show ?case
  proof (cases "node = END")
    case True
    with Suc.prems(1) have "tr = tr0 @ []" "res = Inr s0" by simp_all
    with True show ?thesis by simp
  next
    case notEnd: False
    with Suc.prems(2) have mem: "node \<in> set stage_order" by simp
    from stage_order_nodes [OF mem] obtain p where p: "map_of (nodes ?G) node = Some p" by blast
    show ?thesis
    proof (cases "p s0")
      case (Inl e)
      with Suc.prems(1) notEnd p have "tr = tr0 @ [(node, s0)]" "res = Inl e" by simp_all
      moreover have "execution addm ?G node s0 [(node, s0)] (Inl e)"
        using notEnd p Inl by simp
      ultimately show ?thesis by blast
    next
      case (Inr u)
      show ?thesis
      proof (cases "merge addm s0 u")
        case mI: (Inl e)
        with Suc.prems(1) notEnd p Inr have "tr = tr0 @ [(node, s0)]" "res = Inl e" by simp_all
        moreover have "execution addm ?G node s0 [(node, s0)] (Inl e)"
          using notEnd p Inr mI by simp
        ultimately show ?thesis by blast
      next
        case mR: (Inr s1)
        show ?thesis
        proof (cases "next_node ?G node s1")
          case nI: (Inl e)
          with Suc.prems(1) notEnd p Inr mR have "tr = tr0 @ [(node, s0)]" "res = Inl e" by simp_all
          moreover have "execution addm ?G node s0 [(node, s0)] (Inl e)"
            using notEnd p Inr mR nI by simp
          ultimately show ?thesis by blast
        next
          case nR: (Inr target)
          from next_node_remaining [OF nR mem]
          have t: "target = END \<or> target \<in> set stage_order"
            and r: "target = END \<or> remaining node = node # remaining target" by simp_all
          have len: "length (remaining target) \<le> limit"
          proof (cases "target = END")
            case True then show ?thesis by (simp add: remaining_simps)
          next
            case False
            with r have "remaining node = node # remaining target" by simp
            with Suc.prems(3) show ?thesis by simp
          qed
          have run: "run_node limit addm ?G target s1 (tr0 @ [(node, s0)]) = (res, tr)"
            using Suc.prems(1) notEnd p Inr mR nR by simp
          from Suc.IH [OF run t len] obtain steps where
            st: "tr = (tr0 @ [(node, s0)]) @ steps" "execution addm ?G target s1 steps res" by blast
          have "execution addm ?G node s0 ((node, s0) # steps) res"
            using notEnd p Inr mR nR st(2) by simp
          with st(1) show ?thesis by simp
        qed
      qed
    qed
  qed
qed

lemma execution_names:
  assumes "execution addm (build_graph i su c sa ca) node s steps res"
    and "node = END \<or> node \<in> set stage_order"
  shows "prefix (map fst steps) (remaining node)"
  using assms
proof (induction steps arbitrary: node s)
  case Nil
  then show ?case by simp
next
  case (Cons x rest)
  let ?G = "build_graph i su c sa ca"
  obtain n s' where x: "x = (n, s')" by (cases x)
  from Cons.prems(1) x have eq: "n = node" "s' = s" and notEnd: "node \<noteq> END" by simp_all
  with Cons.prems(2) have mem: "node \<in> set stage_order" by simp
  from remaining_head [OF mem] obtain tl where tl: "remaining node = node # tl" by blast
  from stage_order_nodes [OF mem] obtain p where p: "map_of (nodes ?G) node = Some p" by blast
  show ?case
  proof (cases "p s")
    case (Inl e)
    with Cons.prems(1) x p have "rest = []" by simp
    with x eq tl show ?thesis by simp
  next
    case (Inr u)
    show ?thesis
    proof (cases "merge addm s u")
      case mI: (Inl e)
      with Cons.prems(1) x p Inr have "rest = []" by simp
      with x eq tl show ?thesis by simp
    next
      case mR: (Inr s1)
      show ?thesis
      proof (cases "next_node ?G node s1")
        case nI: (Inl e)
        with Cons.prems(1) x p Inr mR have "rest = []" by simp
        with x eq tl show ?thesis by simp
      next
        case nR: (Inr target)
        with Cons.prems(1) x p Inr mR have ex: "execution addm ?G target s1 rest res" by simp
        from next_node_remaining [OF nR mem]
        have t: "target = END \<or> target \<in> set stage_order"
          and r: "target = END \<or> remaining node = node # remaining target" by simp_all
        from Cons.IH [OF ex t] have pre: "prefix (map fst rest) (remaining target)" .
        show ?thesis
        proof (cases "target = END")
          case True
          with pre have "rest = []" by (simp add: remaining_simps)
          with x eq tl show ?thesis by simp
        next
          case False
          with r have "remaining node = node # remaining target" by simp
          with pre x eq show ?thesis by simp
        qed
      qed
    qed
  qed
qed

lemma execution_deterministic:
  assumes "execution addm g node s steps res" and "execution addm g node s steps' res'"
  shows "steps = steps' \<and> res = res'"
  using assms
proof (induction steps arbitrary: node s steps')
  case Nil
  then show ?case by (cases steps') auto
next
  case (Cons x rest)
  obtain n s0 where x: "x = (n, s0)" by (cases x)
  from Cons.prems(1) x have eq: "n = node" "s0 = s" and notEnd: "node \<noteq> END" by simp_all
  from Cons.prems(2) notEnd obtain y rest' where st: "steps' = y # rest'" by (cases steps') auto
  obtain m s1 where y: "y = (m, s1)" by (cases y)
  from Cons.prems(2) st y have eq': "m = node" "s1 = s" by simp_all
  from Cons.prems(1) x obtain p where p: "map_of (nodes g) node = Some p"
    by (cases "map_of (nodes g) node") simp_all
  show ?case
  proof (cases "p s")
    case (Inl e)
    with Cons.prems x st y p eq eq' show ?thesis by simp
  next
    case (Inr u)
    show ?thesis
    proof (cases "merge addm s u")
      case mI: (Inl e)
      with Cons.prems x st y p eq eq' Inr show ?thesis by simp
    next
      case mR: (Inr s2)
      show ?thesis
      proof (cases "next_node g node s2")
        case nI: (Inl e)
        with Cons.prems x st y p eq eq' Inr mR show ?thesis by simp
      next
        case nR: (Inr target)
        from Cons.prems(1) x p Inr mR nR have a: "execution addm g target s2 rest res" by simp
        from Cons.prems(2) st y p Inr mR nR have b: "execution addm g target s2 rest' res'" by simp
        from Cons.IH [OF a b] x y st eq eq' show ?thesis by simp
      qed
    qed
  qed
qed

lemma execution_final:
  assumes "execution addm g node s0 steps res"
    and "(n, s) \<in> set steps"
    and "execution addm g n s [(n, s)] r"
  shows "(\<exists>before. steps = before @ [(n, s)]) \<and> res = r"
  using assms(1,2)
proof (induction steps arbitrary: node s0)
  case Nil
  then show ?case by simp
next
  case (Cons x rest)
  obtain m s1 where x: "x = (m, s1)" by (cases x)
  from Cons.prems(1) x have eq: "m = node" "s1 = s0" by simp_all
  show ?case
  proof (cases "(n, s) = x")
    case True
    with x eq have "n = node" "s = s0" by simp_all
    with assms(3) have "execution addm g node s0 [(n, s)] r" by simp
    from execution_deterministic [OF Cons.prems(1) this] True
    have "x # rest = [] @ [(n, s)]" "res = r" by simp_all
    then show ?thesis by blast
  next
    case False
    with Cons.prems(2) have mem: "(n, s) \<in> set rest" by auto
    then have ne: "rest \<noteq> []" by auto
    from Cons.prems(1) x obtain p where p: "map_of (nodes g) node = Some p"
      by (cases "map_of (nodes g) node") simp_all
    from Cons.prems(1) x p ne obtain u where u: "p s0 = Inr u"
      by (cases "p s0") simp_all
    from Cons.prems(1) x p u ne obtain s2 where m: "merge addm s0 u = Inr s2"
      by (cases "merge addm s0 u") simp_all
    from Cons.prems(1) x p u m ne obtain target where t: "next_node g node s2 = Inr target"
      by (cases "next_node g node s2") simp_all
    from Cons.prems(1) x p u m t have "execution addm g target s2 rest res" by simp
    from Cons.IH [OF this mem] obtain before where "rest = before @ [(n, s)]" "res = r" by blast
    then have "x # rest = (x # before) @ [(n, s)]" "res = r" by simp_all
    then show ?thesis by blast
  qed
qed

lemma ainvoke_execution:
  assumes "ainvoke limit addm (build_graph i su c sa ca) init = (res, tr)"
    and "5 \<le> limit"
  shows "(\<exists>e. merge addm empty_channels init = Inl e \<and> res = Inl e \<and> tr = [])
       \<or> (\<exists>s0. merge addm empty_channels init = Inr s0
              \<and> execution addm (build_graph i su c sa ca) ''intake'' s0 tr res)"
proof (cases "merge addm empty_channels init")
  case (Inl e)
  with assms(1) have "res = Inl e" "tr = []" by (simp_all add: ainvoke_def)
  with Inl show ?thesis by blast
next
  case (Inr s0)
  have entry: "map_of (edges (build_graph i su c sa ca)) START = Some ''intake''"
    by (simp add: build_graph_def)
  from assms(1) Inr entry
  have run: "run_node limit addm (build_graph i su c sa ca) ''intake'' s0 [] = (res, tr)"
    by (simp add: ainvoke_def)
  have "length (remaining ''intake'') \<le> limit"
    using assms(2) by (simp add: remaining_simps)
  from run_node_execution [OF run _ this]
  have "execution addm (build_graph i su c sa ca) ''intake'' s0 tr res"
    by (simp add: stage_order_def)
  with Inr show ?thesis by simp
qed

lemma run_execution:
  assumes "run addm i su c sa ca init = (res, tr)"
  shows "(\<exists>e. merge addm empty_channels init = Inl e \<and> res = Inl e \<and> tr = [])
       \<or> (\<exists>s0. merge addm empty_channels init = Inr s0
              \<and> execution addm (build_graph i su c sa ca) ''intake'' s0 tr res)"
  using assms ainvoke_execution [of recursion_limit addm i su c sa ca init res tr]
  by (simp add: run_def recursion_limit_def)

lemma node_not_END:
  "map_of (nodes (build_graph i su c sa ca)) n = Some p \<Longrightarrow> n \<noteq> END"
  using node_names [of i su c sa ca n p] by (auto simp: END_def)


subsection \<open>Keys without a channel\<close>

lemma merge_undeclared:
  "merge addm s u = Inr s' \<Longrightarrow> k \<notin> set KarigarState_keys \<Longrightarrow> s' k = s k"
  using merge_lookup [of addm s u s' k] by (auto simp: KarigarState_keys_def)

lemma execution_undeclared:
  assumes "execution addm g node s0 steps res"
    and "k \<notin> set KarigarState_keys"
    and "s0 k = None"
  shows "(\<forall>n s. (n, s) \<in> set steps \<longrightarrow> s k = None)"
  using assms(1,3)
proof (induction steps arbitrary: node s0)
  case Nil
  then show ?case by simp
next
  case (Cons x rest)
  obtain m s1 where x: "x = (m, s1)" by (cases x)
  from Cons.prems(1) x have eq: "m = node" "s1 = s0" by simp_all
  show ?case
  proof (cases "rest = []")
    case True
    with x eq Cons.prems(2) show ?thesis by simp
  next
    case ne: False
    from Cons.prems(1) x obtain p where p: "map_of (nodes g) node = Some p"
      by (cases "map_of (nodes g) node") simp_all
    from Cons.prems(1) x p ne obtain u where u: "p s0 = Inr u"
      by (cases "p s0") simp_all
    from Cons.prems(1) x p u ne obtain s2 where m: "merge addm s0 u = Inr s2"
      by (cases "merge addm s0 u") simp_all
    from Cons.prems(1) x p u m ne obtain target where t: "next_node g node s2 = Inr target"
      by (cases "next_node g node s2") simp_all
    from Cons.prems(1) x p u m t have ex: "execution addm g target s2 rest res" by simp
    from merge_undeclared [OF m assms(2)] Cons.prems(2) have "s2 k = None" by simp
    from Cons.IH [OF ex this] have "\<forall>n s. (n, s) \<in> set rest \<longrightarrow> s k = None" .
    with x eq Cons.prems(2) show ?thesis by auto
  qed
qed

lemma prefix_upto_supplier:
  assumes "prefix (xs @ [''supplier'']) [''intake'', ''supplier'', ''commit'', ''sales'', ''cash'']"
  shows "xs = [''intake'']"
proof (cases xs)
  case Nil
  with assms show ?thesis by simp
next
  case (Cons a ys)
  show ?thesis
  proof (cases ys)
    case Nil
    with Cons assms show ?thesis by simp
  next
    case (Cons b zs)
    with \<open>xs = a # ys\<close> assms have "prefix (zs @ [''supplier'']) [''commit'', ''sales'', ''cash'']"
      by simp
    from set_mono_prefix [OF this] show ?thesis by simp
  qed
qed

subsection \<open>Two scenario runs\<close>

lemma supplier_failure_run:
  "\<exists>res s0 s1. run append_messages intake_done supplier_none commit_done sales_skip cash_done
       started_state = (res, [(''intake'', s0), (''supplier'', s1)])"
  by (simp add: scenario_defs eval_nat_numeral)

lemma raising_intake_run:
  "\<exists>res s0. run append_messages raising_stage supplier_done commit_done sales_skip cash_done
       started_state = (res, [(''intake'', s0)])"
  by (simp add: scenario_defs eval_nat_numeral)

subsection \<open>The agents\<close>

lemma py_strip_empty: "py_strip [] = []"
  by (simp add: py_strip_def)

lemma blank_py_or:
  "blank c \<Longrightarrow> \<exists>s. py_or c (PStr []) = PStr s \<and> py_strip s = []"
  by (cases c) (auto simp: blank_def py_or_def py_strip_empty)

lemma no_input_found:
  assumes "no_input state"
  shows "\<exists>found s. last_user_input str_of state = Inr found
               \<and> py_or found (PStr []) = PStr s \<and> py_strip s = []"
proof (cases "state ''messages''")
  case None
  then show ?thesis
    by (simp add: last_user_input_def py_or_def py_strip_empty)
next
  case (Some messages)
  show ?thesis
  proof (cases "truthy messages")
    case False
    with Some show ?thesis
      by (simp add: last_user_input_def py_or_def py_strip_empty)
  next
    case True
    with assms Some obtain ms where ms: "messages = PList ms" and b: "blank_message (last ms)"
      by (cases messages) (auto simp: no_input_def)
    from True ms have ne: "ms \<noteq> []" by simp
    show ?thesis
    proof (cases "last ms")
      case (PDict d)
      with b have "blank (dict_get d ''content'' (PStr []))"
        by (auto simp: blank_message_def dict_get_def blank_def py_strip_empty split: option.splits)
      from blank_py_or [OF this] Some ms ne PDict True show ?thesis
        by (auto simp: last_user_input_def)
    next
      case (PObj a)
      with b obtain c where c: "map_of a ''content'' = Some c" "blank c"
        by (auto simp: blank_message_def split: option.splits)
      then have "blank (dict_get a ''content'' (PStr (py_str str_of (last ms))))"
        by (simp add: dict_get_def)
      from blank_py_or [OF this] Some ms ne PObj True show ?thesis
        by (auto simp: last_user_input_def)
    next
      case (PStr s)
      with b have "blank (PStr s)" by (simp add: blank_message_def blank_def)
      from blank_py_or [OF this] Some ms ne PStr True show ?thesis
        by (auto simp: last_user_input_def py_str_def)
    qed (use b in \<open>simp_all add: blank_message_def\<close>)
  qed
qed

lemma error_update_status: "error_update m ''status'' = Some (PStr ''error'')"
  by (simp add: error_update_def)

lemma catch_all_status:
  assumes "\<And>u. body = Inr u \<Longrightarrow> u ''status'' \<noteq> None"
  shows "\<exists>u. catch_all body = Inr u \<and> u ''status'' \<noteq> None"
proof (cases body)
  case (Inl e)
  then show ?thesis by (simp add: catch_all_def error_update_status)
next
  case (Inr u)
  with assms show ?thesis by (simp add: catch_all_def)
qed

lemma with_sessionD:
  assumes "with_session db body handler = Inr u"
  shows "body = Inr u \<or> (\<exists>e. u = handler e)"
  using assms
  by (cases body; cases "rollback_raises db"; cases "close_raises db")
     (auto simp: with_session_def)

lemma intake_store_status:
  assumes "intake_store env state material_data = Inr u"
  shows "u ''status'' \<noteq> None"
proof (cases material_data)
  case (PDict d)
  with assms show ?thesis
    by (auto simp: intake_store_def Let_def error_update_status
             split: if_splits sum.splits option.splits dest!: with_sessionD)
qed (use assms in \<open>simp_all add: intake_store_def\<close>)

lemma intake_extract_status:
  assumes "intake_extract env state user_input = Inr u"
  shows "u ''status'' \<noteq> None"
  using assms
  by (auto simp: intake_extract_def error_update_status
           split: option.splits sum.splits if_splits dest: intake_store_status)

lemma IntakeAgent_body_status:
  assumes "IntakeAgent_body env state = Inr u"
  shows "u ''status'' \<noteq> None"
  using assms
  by (auto simp: IntakeAgent_body_def error_update_status
           split: sum.splits pyval.splits if_splits dest: intake_extract_status)

lemma SupplierAgent_body_status:
  assumes "SupplierAgent_body env state = Inr u"
  shows "u ''status'' \<noteq> None"
  using assms
  by (auto simp: SupplierAgent_body_def Let_def error_update_status
           split: sum.splits if_splits)

lemma CommitAgent_body_status:
  assumes "CommitAgent_body env state = Inr u"
  shows "u ''status'' \<noteq> None"
  using assms
  by (auto simp: CommitAgent_body_def Let_def error_update_status
           split: sum.splits option.splits if_splits prod.splits dest!: with_sessionD)

lemma SalesAgent_body_status:
  assumes "SalesAgent_body env state = Inr u"
  shows "u ''status'' \<noteq> None"
  using assms
  by (auto simp: SalesAgent_body_def Let_def error_update_status
           split: sum.splits option.splits if_splits prod.splits dest!: with_sessionD)

lemma CashAgent_body_status:
  assumes "CashAgent_body env state = Inr u"
  shows "u ''status'' \<noteq> None"
  using assms
  by (auto simp: CashAgent_body_def Let_def error_update_status
           split: sum.splits option.splits if_splits dest!: with_sessionD)

lemma py_strip_spaces: "py_strip ''   '' = []"
  by (simp add: py_strip_def py_isspace_def)

section \<open>The transition policy follows the canonical table\<close>

text \<open>
  C3. For every state, \<open>should_continue\<close> answers what the canonical table says for the
  state's status, and \<open>''end''\<close> for a status outside the table. In particular a state
  with status \<open>''sales_skipped''\<close> is sent to \<open>''cash''\<close>, and the path map of the sales
  node takes that answer to the cash node.
\<close>

theorem should_continue_table:
  "should_continue s = table_next (state_get s ''status'')
   \<and> should_continue (s(''status'' \<mapsto> PStr ''sales_skipped'')) = ''cash''
   \<and> next_node (build_graph i su c sa ca) ''sales'' (s(''status'' \<mapsto> PStr ''sales_skipped''))
       = Inr ''cash''"
proof -
  have a: "should_continue s = table_next (state_get s ''status'')"
    by (cases "state_get s ''status''")
       (simp_all add: should_continue_def table_next_def canonical_table_def)
  have b: "should_continue (s(''status'' \<mapsto> PStr ''sales_skipped'')) = ''cash''"
    by (simp add: should_continue_def state_get_def)
  have c: "next_node (build_graph i su c sa ca) ''sales'' (s(''status'' \<mapsto> PStr ''sales_skipped''))
       = Inr ''cash''"
    by (simp add: next_node_def build_graph_def START_def b)
  from a b c show ?thesis by blast
qed

theorem should_continue_table_witness:
  "should_continue [''status'' \<mapsto> PStr ''commit_complete''] = ''sales''
   \<and> should_continue [''status'' \<mapsto> PStr ''cash_skipped''] = ''end''
   \<and> should_continue [''status'' \<mapsto> PInt 3] = ''end''"
  using should_continue_table [of "[''status'' \<mapsto> PStr ''commit_complete'']"]
        should_continue_table [of "[''status'' \<mapsto> PStr ''cash_skipped'']"]
        should_continue_table [of "[''status'' \<mapsto> PInt 3]"]
  by (simp add: table_next_def canonical_table_def state_get_def)


section \<open>A stage that raises\<close>

text \<open>
  C1 (as amended). \<^verbatim>\<open>run\<close> contains no handler: when a stage invoked during a run
  raises instead of returning an update, that invocation is the last one of the run
  and \<^verbatim>\<open>run\<close> raises the very same exception to its caller; no final state is
  returned.
\<close>

theorem run_propagates_stage_fault:
  assumes "run add_messages i su c sa ca initial_state = (res, tr)"
    and "(n, s) \<in> set tr"
    and "map_of (nodes (build_graph i su c sa ca)) n = Some process"
    and "process s = Inl e"
  shows "(\<exists>before. tr = before @ [(n, s)]) \<and> res = Inl e"
proof -
  from run_execution [OF assms(1)] assms(2) obtain s0 where
    ex: "execution add_messages (build_graph i su c sa ca) ''intake'' s0 tr res" by auto
  have "execution add_messages (build_graph i su c sa ca) n s [(n, s)] (Inl e)"
    using assms(3,4) node_not_END [OF assms(3)] by simp
  from execution_final [OF ex assms(2) this] show ?thesis .
qed

theorem run_propagates_stage_fault_counterexample:
  "fst (run append_messages raising_stage supplier_done commit_done sales_skip cash_done
         started_state) = Inl (Exception ''RuntimeError'' ''connection lost'')"
  by (simp add: scenario_defs eval_nat_numeral)

theorem run_propagates_stage_fault_witness:
  "\<exists>s. (''intake'', s) \<in> set (snd (run append_messages raising_stage supplier_done commit_done
                                      sales_skip cash_done started_state))
      \<and> raising_stage s = Inl (Exception ''RuntimeError'' ''connection lost'')
      \<and> fst (run append_messages raising_stage supplier_done commit_done sales_skip cash_done
               started_state) = Inl (Exception ''RuntimeError'' ''connection lost'')"
proof -
  from raising_intake_run obtain res s0 where
    run: "run append_messages raising_stage supplier_done commit_done sales_skip cash_done
            started_state = (res, [(''intake'', s0)])" by blast
  have mem: "(''intake'', s0) \<in> set [(''intake'', s0)]" by simp
  have lk: "map_of (nodes (build_graph raising_stage supplier_done commit_done sales_skip cash_done))
              ''intake'' = Some raising_stage" by (rule node_lookup)
  have raised: "raising_stage s0 = Inl (Exception ''RuntimeError'' ''connection lost'')"
    by (simp add: raising_stage_def)
  from run_propagates_stage_fault [OF run mem lk raised]
  have "res = Inl (Exception ''RuntimeError'' ''connection lost'')" by simp
  with run raised show ?thesis by auto
qed

section \<open>Error short-circuit\<close>

text \<open>
  C2. When a stage invoked during a run returns an update whose status is
  \<open>''error''\<close>, no further stage is invoked, the run ends with the merge of that
  update into the state, and a state that is returned has status \<open>''error''\<close>. The
  merge can only fail in the reducer of \<^verbatim>\<open>messages\<close>: an update without that key,
  as every update of the five agents is, always yields a returned state.
\<close>

theorem error_short_circuit:
  assumes "run add_messages i su c sa ca initial_state = (res, tr)"
    and "(n, s) \<in> set tr"
    and "map_of (nodes (build_graph i su c sa ca)) n = Some process"
    and "process s = Inr update"
    and "update ''status'' = Some (PStr ''error'')"
  shows "(\<exists>before. tr = before @ [(n, s)])
       \<and> res = merge add_messages s update
       \<and> (\<forall>final. res = Inr final \<longrightarrow> final ''status'' = Some (PStr ''error''))
       \<and> (update ''messages'' = None \<longrightarrow> (\<exists>final. res = Inr final))"
proof -
  let ?G = "build_graph i su c sa ca"
  from run_execution [OF assms(1)] assms(2) obtain s0 where
    ex: "execution add_messages ?G ''intake'' s0 tr res" by auto
  have final: "execution add_messages ?G n s [(n, s)] (merge add_messages s update)"
  proof (cases "merge add_messages s update")
    case (Inl e)
    then show ?thesis using assms(3,4) node_not_END [OF assms(3)] by simp
  next
    case (Inr s')
    from merge_status [OF Inr assms(5)] have "s' ''status'' = Some (PStr ''error'')" .
    from next_node_error [where s = s', OF assms(3) this] Inr show ?thesis
      using assms(3,4) node_not_END [OF assms(3)] by simp
  qed
  from execution_final [OF ex assms(2) final]
  have a: "\<exists>before. tr = before @ [(n, s)]" and b: "res = merge add_messages s update" by simp_all
  have c: "\<forall>final. res = Inr final \<longrightarrow> final ''status'' = Some (PStr ''error'')"
  proof (intro allI impI)
    fix final assume "res = Inr final"
    with b have "merge add_messages s update = Inr final" by simp
    from merge_status [OF this assms(5)] show "final ''status'' = Some (PStr ''error'')" .
  qed
  have d: "update ''messages'' = None \<longrightarrow> (\<exists>final. res = Inr final)"
    using b merge_no_messages [of update add_messages s] by simp
  from a b c d show ?thesis by blast
qed

theorem error_short_circuit_witness:
  "\<exists>s update.
      (''supplier'', s) \<in> set (snd (run append_messages intake_done supplier_none commit_done
                                       sales_skip cash_done started_state))
    \<and> supplier_none s = Inr update
    \<and> update ''status'' = Some (PStr ''error'')
    \<and> (\<exists>before. snd (run append_messages intake_done supplier_none commit_done sales_skip cash_done
                         started_state) = before @ [(''supplier'', s)])
    \<and> field_of (fst (run append_messages intake_done supplier_none commit_done sales_skip cash_done
                        started_state)) ''status'' = Some (PStr ''error'')"
proof -
  let ?u = "[''status'' \<mapsto> PStr ''error'', ''error'' \<mapsto> PStr ''No suppliers found'']"
  from supplier_failure_run obtain res s0 s1 where
    run: "run append_messages intake_done supplier_none commit_done sales_skip cash_done
            started_state = (res, [(''intake'', s0), (''supplier'', s1)])" by blast
  have mem: "(''supplier'', s1) \<in> set [(''intake'', s0), (''supplier'', s1)]" by simp
  have lk: "map_of (nodes (build_graph intake_done supplier_none commit_done sales_skip cash_done))
              ''supplier'' = Some supplier_none" by (rule node_lookup)
  have ret: "supplier_none s1 = Inr ?u" by (simp add: supplier_none_def)
  have st: "?u ''status'' = Some (PStr ''error'')" by simp
  from error_short_circuit [OF run mem lk ret st]
  have a: "\<forall>final. res = Inr final \<longrightarrow> final ''status'' = Some (PStr ''error'')"
    and b: "?u ''messages'' = None \<longrightarrow> (\<exists>final. res = Inr final)" by blast+
  have "?u ''messages'' = None" by simp
  with b obtain final where "res = Inr final" by blast
  with a have "field_of res ''status'' = Some (PStr ''error'')"
    by (simp add: field_of_def)
  with run mem ret st show ?thesis by auto
qed

section \<open>Status error and the end of the run\<close>

text \<open>
  C4 (as amended). Once the state that results from merging a stage's update has
  status \<open>''error''\<close>, no further stage is invoked and the run returns that state as it
  is. The status of the initial state is not consulted: the edge from \<^verbatim>\<open>START\<close> to the
  intake node is unconditional, so the intake stage is invoked first on every input
  that can be written to the channels.
\<close>

theorem error_state_ends_run:
  assumes "run add_messages i su c sa ca initial_state = (res, tr)"
  shows "(\<forall>n s process update merged.
            (n, s) \<in> set tr \<longrightarrow> map_of (nodes (build_graph i su c sa ca)) n = Some process \<longrightarrow>
            process s = Inr update \<longrightarrow> merge add_messages s update = Inr merged \<longrightarrow>
            merged ''status'' = Some (PStr ''error'') \<longrightarrow>
            (\<exists>before. tr = before @ [(n, s)]) \<and> res = Inr merged)
       \<and> (\<forall>s0. merge add_messages empty_channels initial_state = Inr s0 \<longrightarrow>
            (\<exists>rest. tr = (''intake'', s0) # rest))"
proof (rule conjI)
  let ?G = "build_graph i su c sa ca"
  show "\<forall>n s process update merged.
            (n, s) \<in> set tr \<longrightarrow> map_of (nodes ?G) n = Some process \<longrightarrow>
            process s = Inr update \<longrightarrow> merge add_messages s update = Inr merged \<longrightarrow>
            merged ''status'' = Some (PStr ''error'') \<longrightarrow>
            (\<exists>before. tr = before @ [(n, s)]) \<and> res = Inr merged"
  proof (intro allI impI)
    fix n s process update merged
    assume a: "(n, s) \<in> set tr" "map_of (nodes ?G) n = Some process"
      "process s = Inr update" "merge add_messages s update = Inr merged"
      "merged ''status'' = Some (PStr ''error'')"
    from run_execution [OF assms] a(1) obtain s0 where
      ex: "execution add_messages ?G ''intake'' s0 tr res" by auto
    have "execution add_messages ?G n s [(n, s)] (Inr merged)"
      using a(2,3,4) next_node_error [where s = merged, OF a(2) a(5)] node_not_END [OF a(2)] by simp
    from execution_final [OF ex a(1) this]
    show "(\<exists>before. tr = before @ [(n, s)]) \<and> res = Inr merged" .
  qed
next
  show "\<forall>s0. merge add_messages empty_channels initial_state = Inr s0 \<longrightarrow>
            (\<exists>rest. tr = (''intake'', s0) # rest)"
  proof (intro allI impI)
    fix s0 assume m: "merge add_messages empty_channels initial_state = Inr s0"
    with run_execution [OF assms]
    have ex: "execution add_messages (build_graph i su c sa ca) ''intake'' s0 tr res" by simp
    show "\<exists>rest. tr = (''intake'', s0) # rest"
    proof (cases tr)
      case Nil
      with ex show ?thesis by (simp add: END_def)
    next
      case (Cons x rest)
      with ex show ?thesis by (cases x) simp
    qed
  qed
qed

theorem error_state_ends_run_counterexample:
  "invoked (snd (run append_messages intake_done supplier_done commit_done sales_skip cash_done
                   failed_state)) = [''intake'', ''supplier'', ''commit'', ''sales'', ''cash'']
   \<and> field_of (fst (run append_messages intake_done supplier_done commit_done sales_skip cash_done
                      failed_state)) ''status'' = Some (PStr ''cash_complete'')"
  by (simp add: scenario_defs eval_nat_numeral)

theorem error_state_ends_run_witness:
  "\<exists>s merged.
      (''supplier'', s) \<in> set (snd (run append_messages intake_done supplier_none commit_done
                                       sales_skip cash_done started_state))
    \<and> merged ''status'' = Some (PStr ''error'')
    \<and> fst (run append_messages intake_done supplier_none commit_done sales_skip cash_done
             started_state) = Inr merged
    \<and> (\<exists>before. snd (run append_messages intake_done supplier_none commit_done sales_skip cash_done
                         started_state) = before @ [(''supplier'', s)])
    \<and> (\<exists>s0 rest. snd (run append_messages intake_done supplier_none commit_done sales_skip cash_done
                          started_state) = (''intake'', s0) # rest)"
proof -
  let ?u = "[''status'' \<mapsto> PStr ''error'', ''error'' \<mapsto> PStr ''No suppliers found'']"
  from supplier_failure_run obtain res s0 s1 where
    run: "run append_messages intake_done supplier_none commit_done sales_skip cash_done
            started_state = (res, [(''intake'', s0), (''supplier'', s1)])" by blast
  have mem: "(''supplier'', s1) \<in> set [(''intake'', s0), (''supplier'', s1)]" by simp
  have lk: "map_of (nodes (build_graph intake_done supplier_none commit_done sales_skip cash_done))
              ''supplier'' = Some supplier_none" by (rule node_lookup)
  have ret: "supplier_none s1 = Inr ?u" by (simp add: supplier_none_def)
  from merge_no_messages [of ?u append_messages s1] obtain merged where
    m: "merge append_messages s1 ?u = Inr merged" by auto
  have st: "merged ''status'' = Some (PStr ''error'')"
    by (rule merge_status [OF m]) simp
  from error_state_ends_run [OF run] mem lk ret m st
  have "res = Inr merged" by blast
  with run mem st show ?thesis by auto
qed

section \<open>Bound on the stage invocations of a run\<close>

text \<open>
  C6. In every run the invoked stage names form a prefix of intake, supplier, commit,
  sales, cash: at most five invocations, none repeated. The run ends within the
  recursion limit: every limit of at least five gives the same result and the same
  trace as the default limit.
\<close>

theorem run_invokes_each_stage_at_most_once:
  assumes "run add_messages i su c sa ca initial_state = (res, tr)"
  shows "prefix (map fst tr) [''intake'', ''supplier'', ''commit'', ''sales'', ''cash'']
       \<and> length tr \<le> 5
       \<and> distinct (map fst tr)
       \<and> (\<forall>limit\<ge>5. ainvoke limit add_messages (build_graph i su c sa ca) initial_state = (res, tr))"
proof -
  let ?G = "build_graph i su c sa ca"
  have pre: "prefix (map fst tr) [''intake'', ''supplier'', ''commit'', ''sales'', ''cash'']"
  proof -
    from run_execution [OF assms] show ?thesis
    proof
      assume "\<exists>e. merge add_messages empty_channels initial_state = Inl e \<and> res = Inl e \<and> tr = []"
      then show ?thesis by auto
    next
      assume "\<exists>s0. merge add_messages empty_channels initial_state = Inr s0
              \<and> execution add_messages ?G ''intake'' s0 tr res"
      then obtain s0 where "execution add_messages ?G ''intake'' s0 tr res" by blast
      from execution_names [OF this] show ?thesis
        by (simp add: stage_order_def remaining_simps)
    qed
  qed
  then obtain zs where zs: "[''intake'', ''supplier'', ''commit'', ''sales'', ''cash''] = map fst tr @ zs"
    by (auto simp: prefix_def)
  have len: "length tr \<le> 5"
  proof -
    from arg_cong [OF zs, of length] have "5 = length tr + length zs" by simp
    then show ?thesis by simp
  qed
  have dist: "distinct (map fst tr)"
  proof -
    have "distinct [''intake'', ''supplier'', ''commit'', ''sales'', ''cash'']" by simp
    with zs have "distinct (map fst tr @ zs)" by simp
    then show ?thesis by simp
  qed
  have fuel: "\<forall>limit\<ge>5. ainvoke limit add_messages ?G initial_state = (res, tr)"
  proof (intro allI impI)
    fix limit :: nat assume l: "5 \<le> limit"
    obtain res' tr' where r': "ainvoke limit add_messages ?G initial_state = (res', tr')"
      by (cases "ainvoke limit add_messages ?G initial_state")
    have "res' = res \<and> tr' = tr"
    proof (cases "merge add_messages empty_channels initial_state")
      case (Inl e)
      with ainvoke_execution [OF r' l] run_execution [OF assms] show ?thesis by simp
    next
      case (Inr s0)
      with ainvoke_execution [OF r' l] run_execution [OF assms]
      have "execution add_messages ?G ''intake'' s0 tr' res'"
        and "execution add_messages ?G ''intake'' s0 tr res" by simp_all
      from execution_deterministic [OF this] show ?thesis by simp
    qed
    with r' show "ainvoke limit add_messages ?G initial_state = (res, tr)" by simp
  qed
  from pre len dist fuel show ?thesis by blast
qed

theorem run_invokes_each_stage_at_most_once_witness:
  "length (snd (run append_messages intake_done supplier_done commit_done sales_skip cash_done
                  started_state)) \<le> 5
   \<and> distinct (map fst (snd (run append_messages intake_done supplier_done commit_done sales_skip
                               cash_done started_state)))
   \<and> ainvoke 5 append_messages
        (build_graph intake_done supplier_done commit_done sales_skip cash_done) started_state
      = run append_messages intake_done supplier_done commit_done sales_skip cash_done started_state
   \<and> invoked (snd (run append_messages intake_done supplier_done commit_done sales_skip cash_done
                     started_state)) = [''intake'', ''supplier'', ''commit'', ''sales'', ''cash'']"
proof -
  let ?R = "run append_messages intake_done supplier_done commit_done sales_skip cash_done
              started_state"
  have run: "?R = (fst ?R, snd ?R)" by simp
  from run_invokes_each_stage_at_most_once [OF run]
  have "length (snd ?R) \<le> 5" and "distinct (map fst (snd ?R))"
    and "ainvoke 5 append_messages
           (build_graph intake_done supplier_done commit_done sales_skip cash_done) started_state
         = ?R" by simp_all
  moreover have "invoked (snd ?R) = [''intake'', ''supplier'', ''commit'', ''sales'', ''cash'']"
    by (simp add: scenario_defs eval_nat_numeral)
  ultimately show ?thesis by blast
qed

section \<open>What a merge keeps and what it overwrites\<close>

text \<open>
  C5 (as amended). Merging an update into the state deletes no key of the state. Every
  key declared in \<^verbatim>\<open>KarigarState\<close> other than \<^verbatim>\<open>messages\<close> takes the update's value
  when the update has the key and keeps its value otherwise; a key that the update
  lacks is unchanged; \<^verbatim>\<open>messages\<close> is not overwritten but set to what the reducer
  \<^verbatim>\<open>add_messages\<close> makes of the stored and the new value. Merging the empty update
  leaves the state unchanged.
\<close>

theorem merge_keeps_and_overwrites:
  assumes "merge add_messages s u = Inr merged"
  shows "(\<forall>k. s k \<noteq> None \<longrightarrow> merged k \<noteq> None)
       \<and> (\<forall>k\<in>set KarigarState_keys. k \<noteq> ''messages'' \<longrightarrow>
             merged k = (case u k of None \<Rightarrow> s k | Some v \<Rightarrow> Some v))
       \<and> (\<forall>k. u k = None \<longrightarrow> merged k = s k)
       \<and> (\<forall>new. u ''messages'' = Some new \<longrightarrow>
             (\<exists>combined. add_messages (case s ''messages'' of None \<Rightarrow> PList [] | Some old \<Rightarrow> old) new
                            = Inr combined
                        \<and> merged ''messages'' = Some combined))
       \<and> merge add_messages s Map.empty = Inr s"
proof -
  note look = merge_lookup [OF assms]
  have a: "\<forall>k. s k \<noteq> None \<longrightarrow> merged k \<noteq> None"
  proof (intro allI impI)
    fix k assume k: "s k \<noteq> None"
    show "merged k \<noteq> None"
    proof (cases "u ''messages''")
      case None
      with k look [of k] show ?thesis by (auto split: option.splits)
    next
      case (Some new)
      with assms obtain c where
        "add_messages (case s ''messages'' of None \<Rightarrow> PList [] | Some old \<Rightarrow> old) new = Inr c"
        by (auto simp: merge_def Let_def split: sum.splits)
      with Some k look [of k] show ?thesis by (auto split: option.splits)
    qed
  qed
  have b: "\<forall>k\<in>set KarigarState_keys. k \<noteq> ''messages'' \<longrightarrow>
             merged k = (case u k of None \<Rightarrow> s k | Some v \<Rightarrow> Some v)"
    using look by simp
  have c: "\<forall>k. u k = None \<longrightarrow> merged k = s k"
  proof (intro allI impI)
    fix k assume none: "u k = None"
    show "merged k = s k"
    proof (cases "k = ''messages''")
      case True
      with none look [of "''messages''"] show ?thesis by simp
    next
      case False
      with none look [of k] show ?thesis by simp
    qed
  qed
  have d: "\<forall>new. u ''messages'' = Some new \<longrightarrow>
             (\<exists>combined. add_messages (case s ''messages'' of None \<Rightarrow> PList [] | Some old \<Rightarrow> old) new
                            = Inr combined
                        \<and> merged ''messages'' = Some combined)"
    using assms by (auto simp: merge_def Let_def split: sum.splits)
  have e: "merge add_messages s Map.empty = Inr s"
    by (simp add: merge_def write_channel_def KarigarState_keys_def)
  from a b c d e show ?thesis by blast
qed

theorem merge_keeps_and_overwrites_counterexample:
  "field_of (merge append_messages one_message_state message_update) ''messages''
     = Some (PList [PObj [(''id'', PStr ''m1''), (''content'', PStr ''hello'')],
                    PObj [(''id'', PStr ''m2''), (''content'', PStr ''again'')]])
   \<and> message_update ''messages''
     = Some (PList [PObj [(''id'', PStr ''m2''), (''content'', PStr ''again'')]])
   \<and> field_of (merge append_messages one_message_state message_update) ''messages''
     \<noteq> message_update ''messages''"
  by (simp add: scenario_defs)

theorem merge_keeps_and_overwrites_witness:
  "\<exists>merged. merge append_messages one_message_state message_update = Inr merged
     \<and> merged ''status'' = Some (PStr ''started'')
     \<and> merged ''messages'' \<noteq> None
     \<and> merge append_messages one_message_state Map.empty = Inr one_message_state"
proof -
  have "\<exists>merged. merge append_messages one_message_state message_update = Inr merged"
    by (simp add: scenario_defs)
  then obtain merged where m: "merge append_messages one_message_state message_update = Inr merged"
    by blast
  have present: "one_message_state ''status'' \<noteq> None" "one_message_state ''messages'' \<noteq> None"
    and absent: "message_update ''status'' = None"
    by (simp_all add: one_message_state_def message_update_def)
  from merge_keeps_and_overwrites [OF m] present absent
  have "merged ''status'' = one_message_state ''status''" "merged ''messages'' \<noteq> None"
    and "merge append_messages one_message_state Map.empty = Inr one_message_state" by blast+
  with m show ?thesis by (simp add: one_message_state_def)
qed

section \<open>The error message of a failed supplier search\<close>

text \<open>
  C7 (what the code does). When the supplier stage returns status \<open>''error''\<close> with an
  \<^verbatim>\<open>error\<close> message, the run invokes intake and supplier only and returns a state with
  status \<open>''error''\<close>; but \<^verbatim>\<open>KarigarState\<close> declares no key \<^verbatim>\<open>error\<close>, so the message
  has no channel and the returned state holds no \<^verbatim>\<open>error\<close> field.
\<close>

theorem supplier_error_field_not_returned:
  assumes "run add_messages i su c sa ca initial_state = (res, tr)"
    and "(''supplier'', s) \<in> set tr"
    and "su s = Inr [''status'' \<mapsto> PStr ''error'', ''error'' \<mapsto> PStr msg]"
  shows "(\<exists>final. res = Inr final \<and> final ''status'' = Some (PStr ''error'')
                 \<and> final ''error'' = None)
       \<and> map fst tr = [''intake'', ''supplier'']"
proof -
  let ?G = "build_graph i su c sa ca"
  let ?u = "[''status'' \<mapsto> PStr ''error'', ''error'' \<mapsto> PStr msg]"
  have undeclared: "''error'' \<notin> set KarigarState_keys"
    by (simp add: KarigarState_keys_def)
  from run_execution [OF assms(1)] assms(2) obtain s0 where
    m0: "merge add_messages empty_channels initial_state = Inr s0"
    and ex: "execution add_messages ?G ''intake'' s0 tr res" by auto
  from merge_undeclared [OF m0 undeclared] have "s0 ''error'' = None"
    by (simp add: empty_channels_def)
  from execution_undeclared [OF ex undeclared this] assms(2) have se: "s ''error'' = None" by blast
  have lk: "map_of (nodes ?G) ''supplier'' = Some su" by (rule node_lookup)
  from merge_no_messages [of ?u add_messages s] obtain final where
    mf: "merge add_messages s ?u = Inr final" by auto
  have st: "final ''status'' = Some (PStr ''error'')"
    by (rule merge_status [OF mf]) simp
  have fe: "final ''error'' = None"
    using merge_undeclared [OF mf undeclared] se by simp
  have "execution add_messages ?G ''supplier'' s [(''supplier'', s)] (Inr final)"
    using lk assms(3) mf next_node_error [where s = final, OF lk st] by (simp add: END_def)
  from execution_final [OF ex assms(2) this] obtain before where
    tr: "tr = before @ [(''supplier'', s)]" and r: "res = Inr final" by blast
  from execution_names [OF ex] have "prefix (map fst tr) (remaining ''intake'')"
    by (simp add: stage_order_def)
  with tr have "prefix (map fst before @ [''supplier''])
      [''intake'', ''supplier'', ''commit'', ''sales'', ''cash'']"
    by (simp add: remaining_simps)
  from prefix_upto_supplier [OF this] tr have "map fst tr = [''intake'', ''supplier'']" by simp
  with r st fe show ?thesis by blast
qed

theorem supplier_error_field_not_returned_witness:
  "field_of (fst (run append_messages intake_done supplier_none commit_done sales_skip cash_done
                    started_state)) ''status'' = Some (PStr ''error'')
   \<and> field_of (fst (run append_messages intake_done supplier_none commit_done sales_skip cash_done
                      started_state)) ''error'' = None
   \<and> invoked (snd (run append_messages intake_done supplier_none commit_done sales_skip cash_done
                     started_state)) = [''intake'', ''supplier'']"
proof -
  from supplier_failure_run obtain res s0 s1 where
    run: "run append_messages intake_done supplier_none commit_done sales_skip cash_done
            started_state = (res, [(''intake'', s0), (''supplier'', s1)])" by blast
  have mem: "(''supplier'', s1) \<in> set [(''intake'', s0), (''supplier'', s1)]" by simp
  have ret: "supplier_none s1
      = Inr [''status'' \<mapsto> PStr ''error'', ''error'' \<mapsto> PStr ''No suppliers found'']"
    by (simp add: supplier_none_def)
  from supplier_error_field_not_returned [OF run mem ret] obtain final where
    "res = Inr final" "final ''status'' = Some (PStr ''error'')" "final ''error'' = None" by blast
  with run show ?thesis by (simp add: field_of_def invoked_def)
qed

section \<open>The intake agent without input\<close>

text \<open>
  C8. For every state whose \<^verbatim>\<open>messages\<close> field is absent or empty, or whose last
  message has blank content, \<^verbatim>\<open>IntakeAgent.process\<close> does not raise: it returns the
  update with status \<open>''error''\<close> and error \<open>''No input provided''\<close>, whatever its
  collaborators would do.
\<close>

theorem intake_reports_missing_input:
  assumes "no_input state"
  shows "IntakeAgent_process env state
           = Inr [''status'' \<mapsto> PStr ''error'', ''error'' \<mapsto> PStr ''No input provided'']"
proof -
  from no_input_found [OF assms, of "intake_str env"] obtain s found where
    "last_user_input (intake_str env) state = Inr found" "py_or found (PStr []) = PStr s"
    "py_strip s = []"
    by blast
  then show ?thesis
    by (simp add: IntakeAgent_process_def IntakeAgent_body_def catch_all_def error_update_def)
qed

theorem intake_reports_missing_input_witness:
  "no_input [''status'' \<mapsto> PStr ''started'']
   \<and> IntakeAgent_process offline_intake [''status'' \<mapsto> PStr ''started'']
       = Inr [''status'' \<mapsto> PStr ''error'', ''error'' \<mapsto> PStr ''No input provided'']
   \<and> no_input blank_message_state
   \<and> IntakeAgent_process offline_intake blank_message_state
       = Inr [''status'' \<mapsto> PStr ''error'', ''error'' \<mapsto> PStr ''No input provided'']"
proof -
  have a: "no_input [''status'' \<mapsto> PStr ''started'']"
    by (simp add: no_input_def)
  have b: "no_input blank_message_state"
    by (simp add: no_input_def blank_message_state_def blank_message_def blank_def py_strip_spaces)
  from intake_reports_missing_input [OF a, of offline_intake]
       intake_reports_missing_input [OF b, of offline_intake] a b
  show ?thesis by simp
qed

section \<open>Fault containment inside the agents\<close>

text \<open>
  C9. For every state and every behaviour of their collaborators, each of the five
  agents' \<^verbatim>\<open>process\<close> functions returns an update that has a \<^verbatim>\<open>status\<close> key and
  does not raise: the whole body is inside the handler that turns an exception into
  \<^verbatim>\<open>{"status": "error", "error": str(e)}\<close>, and every \<^verbatim>\<open>return\<close> of the body sets
  the status. Exceptions are the instances of \<^verbatim>\<open>Exception\<close>, which is what the handler
  catches.
\<close>

theorem agents_always_return_status:
  "(\<exists>u. IntakeAgent_process intake state = Inr u \<and> u ''status'' \<noteq> None)
   \<and> (\<exists>u. SupplierAgent_process supplier state = Inr u \<and> u ''status'' \<noteq> None)
   \<and> (\<exists>u. CommitAgent_process commit state = Inr u \<and> u ''status'' \<noteq> None)
   \<and> (\<exists>u. SalesAgent_process sales state = Inr u \<and> u ''status'' \<noteq> None)
   \<and> (\<exists>u. CashAgent_process cash state = Inr u \<and> u ''status'' \<noteq> None)"
proof -
  have a: "\<exists>u. catch_all (IntakeAgent_body intake state) = Inr u \<and> u ''status'' \<noteq> None"
    by (rule catch_all_status) (rule IntakeAgent_body_status)
  have b: "\<exists>u. catch_all (SupplierAgent_body supplier state) = Inr u \<and> u ''status'' \<noteq> None"
    by (rule catch_all_status) (rule SupplierAgent_body_status)
  have c: "\<exists>u. catch_all (CommitAgent_body commit state) = Inr u \<and> u ''status'' \<noteq> None"
    by (rule catch_all_status) (rule CommitAgent_body_status)
  have d: "\<exists>u. catch_all (SalesAgent_body sales state) = Inr u \<and> u ''status'' \<noteq> None"
    by (rule catch_all_status) (rule SalesAgent_body_status)
  have e: "\<exists>u. catch_all (CashAgent_body cash state) = Inr u \<and> u ''status'' \<noteq> None"
    by (rule catch_all_status) (rule CashAgent_body_status)
  from a b c d e show ?thesis
    by (simp only: IntakeAgent_process_def SupplierAgent_process_def CommitAgent_process_def
          SalesAgent_process_def CashAgent_process_def)
qed

theorem agents_always_return_status_witness:
  "(\<exists>u. IntakeAgent_process offline_intake started_state = Inr u \<and> u ''status'' \<noteq> None)
   \<and> (\<exists>u. SupplierAgent_process empty_search started_state = Inr u \<and> u ''status'' \<noteq> None)
   \<and> (\<exists>u. CommitAgent_process failing_commit started_state = Inr u \<and> u ''status'' \<noteq> None)
   \<and> (\<exists>u. SalesAgent_process no_store started_state = Inr u \<and> u ''status'' \<noteq> None)
   \<and> (\<exists>u. CashAgent_process open_ledger started_state = Inr u \<and> u ''status'' \<noteq> None)"
  by (rule agents_always_return_status)

section \<open>The skipped ledger entry\<close>

text \<open>
  C10. For every state in which the artisan id, the order id or the order details are
  missing, \<^verbatim>\<open>CashAgent.process\<close> returns exactly \<^verbatim>\<open>{"status": "cash_skipped"}\<close>; that
  status is no key of the transition table, the policy answers \<open>''end''\<close> for it, and a
  run that reaches the cash node in such a state ends after that invocation and
  returns the state with status \<open>''cash_skipped''\<close>.
\<close>

theorem cash_skipped_ends_run:
  assumes "missing state ''artisan_id'' \<or> missing state ''order_id''
           \<or> missing state ''order_details''"
  shows "CashAgent_process env state = Inr [''status'' \<mapsto> PStr ''cash_skipped'']
       \<and> map_of canonical_table ''cash_skipped'' = None
       \<and> should_continue (state(''status'' \<mapsto> PStr ''cash_skipped'')) = ''end''
       \<and> run_node (Suc limit) add_messages (build_graph i su c sa (CashAgent_process env))
            ''cash'' state tr
          = (Inr (state(''status'' \<mapsto> PStr ''cash_skipped'')), tr @ [(''cash'', state)])"
proof -
  let ?G = "build_graph i su c sa (CashAgent_process env)"
  let ?u = "[''status'' \<mapsto> PStr ''cash_skipped'']"
  have p: "CashAgent_process env state = Inr ?u"
    using assms
    by (auto simp: CashAgent_process_def CashAgent_body_def catch_all_def Let_def missing_def)
  have t: "map_of canonical_table ''cash_skipped'' = None"
    by (simp add: canonical_table_def)
  have sc: "should_continue (state(''status'' \<mapsto> PStr ''cash_skipped'')) = ''end''"
    by (simp add: should_continue_def state_get_def)
  have m: "merge add_messages state ?u = Inr (state(''status'' \<mapsto> PStr ''cash_skipped''))"
    by (simp add: merge_def write_channel_def KarigarState_keys_def)
  have lk: "map_of (nodes ?G) ''cash'' = Some (CashAgent_process env)" by (rule node_lookup)
  have nx: "next_node ?G ''cash'' (state(''status'' \<mapsto> PStr ''cash_skipped'')) = Inr END"
    by (rule next_node_end [OF lk sc])
  have r: "run_node (Suc limit) add_messages ?G ''cash'' state tr
          = (Inr (state(''status'' \<mapsto> PStr ''cash_skipped'')), tr @ [(''cash'', state)])"
  proof -
    have ne: "''cash'' \<noteq> END" by (simp add: END_def)
    with lk p m nx show ?thesis by (simp add: run_node_END)
  qed
  from p t sc r show ?thesis by blast
qed

theorem cash_skipped_ends_run_witness:
  "missing started_state ''order_id''
   \<and> CashAgent_process open_ledger started_state = Inr [''status'' \<mapsto> PStr ''cash_skipped'']
   \<and> should_continue (started_state(''status'' \<mapsto> PStr ''cash_skipped'')) = ''end''
   \<and> run_node (Suc 0) append_messages
        (build_graph intake_done supplier_done commit_done sales_skip (CashAgent_process open_ledger))
        ''cash'' started_state []
      = (Inr (started_state(''status'' \<mapsto> PStr ''cash_skipped'')), [(''cash'', started_state)])"
proof -
  have a: "missing started_state ''order_id''"
    by (simp add: missing_def state_get_def started_state_def)
  then have "missing started_state ''artisan_id'' \<or> missing started_state ''order_id''
           \<or> missing started_state ''order_details''" by simp
  from cash_skipped_ends_run [OF this, of open_ledger 0 append_messages intake_done supplier_done
      commit_done sales_skip "[]"] a
  show ?thesis by simp
qed

end
